(* ===== verification/Prelude.thy ===== *)
theory Prelude
  imports Main "HOL-Library.AList"
begin

text \<open>
  Shared vocabulary of the chat-rs development: the names of the model's basic types,
  the lemma collections the component theories fill, and generic lemmas on association
  lists, \<open>find\<close> and first-match update. The registry of \<open>src/src/main.rs\<close> is a
  \<open>HashMap\<close> that the code both looks up by key and scans with \<open>iter().find\<close>; it is
  modelled as an association list whose order is the (unspecified but fixed) iteration
  order, so both kinds of access are executable and faithful.
\<close>

type_synonym token = string
type_synonym chan_id = nat
type_synonym task_id = nat

named_theorems handler_defs "unfolding equations of the request handlers and critical sections"
named_theorems wf_preserve "lemmas showing that an operation keeps the registry invariant"

subsection \<open>First-match update\<close>

text \<open>
  \<open>iter_mut().find(p)\<close> followed by a write through the returned reference changes the
  first element that satisfies \<open>p\<close> and nothing else.
\<close>

fun map_first :: "('a \<Rightarrow> bool) \<Rightarrow> ('a \<Rightarrow> 'a) \<Rightarrow> 'a list \<Rightarrow> 'a list" where
  "map_first P f [] = []"
| "map_first P f (x # xs) = (if P x then f x # xs else x # map_first P f xs)"

lemma map_first_no_match [simp]: "find P xs = None \<Longrightarrow> map_first P f xs = xs"
  by (induction xs) auto

lemma map_map_first:
  "(\<And>x. P x \<Longrightarrow> g (f x) = g x) \<Longrightarrow> map g (map_first P f xs) = map g xs"
  by (induction xs) auto

lemma length_map_first [simp]: "length (map_first P f xs) = length xs"
  by (induction xs) auto

lemma set_map_first_cases:
  "y \<in> set (map_first P f xs) \<Longrightarrow> y \<in> set xs \<or> (\<exists>x. find P xs = Some x \<and> y = f x)"
  by (induction xs) auto

lemma find_map_first:
  "(\<And>x. P x \<Longrightarrow> P (f x)) \<Longrightarrow>
   find P (map_first P f xs) = map_option f (find P xs)"
  by (induction xs) auto

lemma find_map_first_other:
  "(\<And>x. Q x \<Longrightarrow> \<not> P x) \<Longrightarrow> (\<And>x. P x \<Longrightarrow> Q (f x) = Q x) \<Longrightarrow>
   find Q (map_first P f xs) = find Q xs"
  by (induction xs) auto

subsection \<open>\<open>find\<close> on lists with a unique match\<close>

lemma find_SomeD: "find P xs = Some x \<Longrightarrow> x \<in> set xs \<and> P x"
  by (auto simp: find_Some_iff)

lemma find_unique:
  assumes "distinct (map g xs)" and "x \<in> set xs" and "g x = v"
  shows "find (\<lambda>y. g y = v) xs = Some x"
  using assms by (induction xs) (auto simp: rev_image_eqI)

lemma find_filter_other:
  "(\<And>x. P x \<Longrightarrow> Q x) \<Longrightarrow> find P (filter Q xs) = find P xs"
  by (induction xs) auto

subsection \<open>Removing one element\<close>

lemma distinct_map_remove1: "distinct (map f xs) \<Longrightarrow> distinct (map f (remove1 x xs))"
  by (induction xs) (force dest: subsetD [OF set_remove1_subset])+

lemma map_remove1_notin:
  "distinct (map f xs) \<Longrightarrow> x \<in> set xs \<Longrightarrow> f x \<notin> f ` set (remove1 x xs)"
proof (induction xs)
  case Nil
  then show ?case by simp
next
  case (Cons a xs)
  show ?case
  proof (cases "x = a")
    case True
    with Cons.prems show ?thesis by simp
  next
    case False
    with Cons.prems have "x \<in> set xs" and "f x \<noteq> f a"
      by (auto simp: rev_image_eqI)
    with Cons show ?thesis by auto
  qed
qed

subsection \<open>Association lists\<close>

lemma map_of_filter_fst:
  "distinct (map fst xs) \<Longrightarrow> map_of (filter P xs) k =
     (case map_of xs k of Some v \<Rightarrow> if P (k, v) then Some v else None | None \<Rightarrow> None)"
  by (induction xs) (auto split: option.splits intro: rev_image_eqI)

lemma set_update_cases:
  "p \<in> set (AList.update k v xs) \<Longrightarrow> p = (k, v) \<or> p \<in> set xs"
  by (induction xs) (auto split: if_splits)

lemma set_update_keep:
  "p \<in> set xs \<Longrightarrow> fst p \<noteq> k \<Longrightarrow> p \<in> set (AList.update k v xs)"
  by (induction xs) auto

lemma in_set_update_new: "(k, v) \<in> set (AList.update k v xs)"
  by (induction xs) auto

lemma map_of_update_other [simp]:
  "k' \<noteq> k \<Longrightarrow> map_of (AList.update k v xs) k' = map_of xs k'"
  by (simp add: update_conv')

lemma distinct_map_update:
  "distinct (map g xs) \<Longrightarrow> g (k, v) \<notin> g ` set xs \<Longrightarrow>
   distinct (map g (AList.update k v xs))"
proof (induction xs)
  case Nil
  then show ?case by simp
next
  case (Cons p ps)
  show ?case
  proof (cases "fst p = k")
    case True
    with Cons.prems show ?thesis by simp
  next
    case False
    have "g p \<notin> g ` set (AList.update k v ps)"
      using Cons.prems by (force dest: set_update_cases)
    with False Cons show ?thesis by simp
  qed
qed

lemma map_of_update_same [simp]: "map_of (AList.update k v xs) k = Some v"
  by (simp add: update_conv')

end
