(* ===== verification/Registry.thy ===== *)
theory Registry
  imports Prelude
begin

text \<open>
  The registry of \<open>src/src/main.rs\<close>: the \<open>Client\<close> and \<open>Message\<close> structs, the
  shared map \<open>Clients = Arc<Mutex<HashMap<String, Client>>>\<close> keyed by the
  lower-cased display name, and the map operations the handlers perform on it
  (\<open>contains_key\<close>, \<open>get\<close>, \<open>insert\<close>, \<open>iter().find\<close> / \<open>iter().any\<close> by token,
  \<open>iter_mut().find\<close> by token followed by a write, \<open>retain\<close>). The invariant
  \<open>clients_wf\<close> says that keys are unique, that each key is the lower-cased name of its
  client and that tokens are unique; each operation's lemmas show when it keeps it.
\<close>

subsection \<open>Case folding\<close>

text \<open>
  \<open>str::to_lowercase\<close> on the ASCII range: \<open>A\<close>..\<open>Z\<close> map to \<open>a\<close>..\<open>z\<close>, every
  other character is left as it is. (Rust also folds non-ASCII letters; HOL strings are
  byte lists, and that part of Unicode case folding is not modelled.)
\<close>

definition to_lower_char :: "char \<Rightarrow> char" where
  "to_lower_char c =
     (if (65::nat) \<le> of_char c \<and> of_char c \<le> (90::nat) then char_of (of_char c + (32::nat)) else c)"

definition to_lowercase :: "string \<Rightarrow> string" where
  "to_lowercase s = map to_lower_char s"

subsection \<open>Clients and messages\<close>

text \<open>
  \<open>Client\<close>: the display name as registered, the token, the handle of the pending
  disconnect timer (a task id of the runtime model) and the sending half of the client's
  outbound channel (a channel id). \<open>Message\<close> is the frame sent to a recipient.
\<close>

record client =
  name :: string
  token :: token
  disconnect_timer :: "task_id option"
  tx :: "chan_id option"

record message =
  msg_from :: string
  msg_body :: string

type_synonym clients = "(string \<times> client) list"

text \<open>\<open>Client { token, name, ..Default::default() }\<close> in \<open>handle_registration\<close>.\<close>

definition new_client :: "string \<Rightarrow> token \<Rightarrow> client" where
  "new_client n tok = \<lparr>name = n, token = tok, disconnect_timer = None, tx = None\<rparr>"

subsection \<open>Map operations\<close>

definition contains_key :: "clients \<Rightarrow> string \<Rightarrow> bool" where
  "contains_key r k \<longleftrightarrow> map_of r k \<noteq> None"

text \<open>\<open>HashMap::insert\<close>: replaces the value of an existing key, else adds the entry.\<close>

definition hm_insert :: "string \<Rightarrow> client \<Rightarrow> clients \<Rightarrow> clients" where
  "hm_insert k c r = AList.update k c r"

definition has_token :: "token \<Rightarrow> string \<times> client \<Rightarrow> bool" where
  "has_token tok e \<longleftrightarrow> token (snd e) = tok"

text \<open>\<open>iter().find(|(_, client)| client.token == token)\<close>: the first entry in iteration
  order whose token matches.\<close>

definition find_by_token :: "clients \<Rightarrow> token \<Rightarrow> (string \<times> client) option" where
  "find_by_token r tok = find (has_token tok) r"

text \<open>\<open>iter().any(|(_, client)| client.token == token)\<close> in \<open>ws_handler\<close>.\<close>

definition any_token :: "clients \<Rightarrow> token \<Rightarrow> bool" where
  "any_token r tok = list_ex (has_token tok) r"

text \<open>\<open>iter_mut().find(..)\<close> by token, then a write through the found client.\<close>

definition update_by_token :: "clients \<Rightarrow> token \<Rightarrow> (client \<Rightarrow> client) \<Rightarrow> clients" where
  "update_by_token r tok f = map_first (has_token tok) (\<lambda>(k, c). (k, f c)) r"

text \<open>\<open>retain(|_, client| client.token != token)\<close> in the disconnect timer.\<close>

definition retain_token :: "clients \<Rightarrow> token \<Rightarrow> clients" where
  "retain_token r tok = filter (\<lambda>e. \<not> has_token tok e) r"

subsection \<open>The registry invariant\<close>

definition tokens :: "clients \<Rightarrow> token list" where
  "tokens r = map (token \<circ> snd) r"

definition clients_wf :: "clients \<Rightarrow> bool" where
  "clients_wf r \<longleftrightarrow>
     distinct (map fst r) \<and> (\<forall>(k, c) \<in> set r. k = to_lowercase (name c)) \<and> distinct (tokens r)"

subsection \<open>Case folding lemmas\<close>

lemma to_lower_char_idem [simp]: "to_lower_char (to_lower_char c) = to_lower_char c"
  by (simp add: to_lower_char_def)

lemma to_lowercase_idem [simp]: "to_lowercase (to_lowercase s) = to_lowercase s"
  by (simp add: to_lowercase_def comp_def)

lemma length_to_lowercase [simp]: "length (to_lowercase s) = length s"
  by (simp add: to_lowercase_def)

subsection \<open>Token lookup\<close>

lemma any_token_find: "any_token r tok \<longleftrightarrow> find_by_token r tok \<noteq> None"
  by (auto simp: any_token_def find_by_token_def list_ex_iff find_None_iff)

lemma find_by_token_SomeD:
  "find_by_token r tok = Some e \<Longrightarrow> e \<in> set r \<and> token (snd e) = tok"
  by (auto simp: find_by_token_def has_token_def dest: find_SomeD)

text \<open>With unique tokens, the entry \<open>iter().find\<close> returns does not depend on the
  iteration order: it is the one entry that carries the token.\<close>

lemma find_by_token_wf:
  assumes "clients_wf r"
  shows "find_by_token r tok = Some e \<longleftrightarrow> e \<in> set r \<and> token (snd e) = tok"
proof
  assume "e \<in> set r \<and> token (snd e) = tok"
  moreover have "distinct (map (token \<circ> snd) r)"
    using assms by (simp add: clients_wf_def tokens_def)
  ultimately have "find (\<lambda>y. (token \<circ> snd) y = tok) r = Some e"
    by (intro find_unique) (auto simp: comp_def)
  then show "find_by_token r tok = Some e"
    by (simp add: find_by_token_def has_token_def [abs_def] comp_def)
qed (rule find_by_token_SomeD)

lemma find_by_token_None:
  "find_by_token r tok = None \<longleftrightarrow> tok \<notin> set (tokens r)"
  by (force simp: find_by_token_def find_None_iff tokens_def has_token_def)

lemma contains_key_wf:
  assumes "clients_wf r"
  shows "contains_key r (to_lowercase n) \<longleftrightarrow>
           (\<exists>e \<in> set r. to_lowercase (name (snd e)) = to_lowercase n)"
  using assms
  by (force simp: contains_key_def clients_wf_def map_of_eq_None_iff image_iff)

subsection \<open>Effect of the map operations on tokens\<close>

lemma tokens_update_by_token:
  "(\<And>c. token (f c) = token c) \<Longrightarrow> tokens (update_by_token r tok f) = tokens r"
  by (auto simp: tokens_def update_by_token_def intro: map_map_first)

lemma set_tokens_retain [simp]:
  "set (tokens (retain_token r tok)) = set (tokens r) - {tok}"
  by (auto simp: tokens_def retain_token_def has_token_def)

lemma set_tokens_insert:
  "set (tokens (hm_insert k c r)) \<subseteq> insert (token c) (set (tokens r))"
  by (auto simp: tokens_def hm_insert_def dest: set_update_cases)

lemma find_by_token_update_by_token:
  "(\<And>c. token (f c) = token c) \<Longrightarrow>
   find_by_token (update_by_token r tok f) tok' =
     (if tok' = tok then map_option (\<lambda>(k, c). (k, f c)) (find_by_token r tok)
      else find_by_token r tok')"
  by (auto simp: find_by_token_def update_by_token_def has_token_def
       intro: find_map_first find_map_first_other)

lemma find_by_token_retain:
  "find_by_token (retain_token r tok) tok' =
     (if tok' = tok then None else find_by_token r tok')"
  by (auto simp: find_by_token_def retain_token_def has_token_def find_None_iff
       intro: find_filter_other)

lemma set_update_by_token_cases:
  "e \<in> set (update_by_token r tok f) \<Longrightarrow>
   e \<in> set r \<or> (\<exists>k c. (k, c) \<in> set r \<and> token c = tok \<and> e = (k, f c))"
  by (fastforce simp: update_by_token_def has_token_def dest: set_map_first_cases find_SomeD)

lemma update_by_token_found:
  assumes "clients_wf r" and "(k, c) \<in> set r" and "token c = tok"
  shows "(k, f c) \<in> set (update_by_token r tok f)"
proof -
  have "find (has_token tok) r = Some (k, c)"
    using assms find_by_token_wf by (simp add: find_by_token_def)
  then show ?thesis
    by (induction r) (auto simp: update_by_token_def split: if_splits)
qed

lemma retain_token_idem [simp]: "retain_token (retain_token r tok) tok = retain_token r tok"
  by (simp add: retain_token_def)

lemma tokens_insert_removed:
  "tok \<in> set (tokens r) \<Longrightarrow> tok \<notin> set (tokens (hm_insert k c r)) \<Longrightarrow>
   \<exists>c'. map_of r k = Some c' \<and> token c' = tok"
proof (induction r)
  case Nil
  then show ?case by (simp add: tokens_def)
next
  case (Cons p ps)
  show ?case
  proof (cases "fst p = k")
    case True
    with Cons.prems show ?thesis
      by (cases p) (auto simp: tokens_def hm_insert_def)
  next
    case False
    with Cons.prems have "tok \<in> set (tokens ps)" and "tok \<notin> set (tokens (hm_insert k c ps))"
      by (cases p; auto simp: tokens_def hm_insert_def)+
    with Cons.IH False show ?thesis by (cases p) auto
  qed
qed

subsection \<open>The operations keep the invariant\<close>

lemma clients_wf_retain [wf_preserve]: "clients_wf r \<Longrightarrow> clients_wf (retain_token r tok)"
  by (auto simp: clients_wf_def retain_token_def tokens_def distinct_map_filter)

lemma clients_wf_update_by_token [wf_preserve]:
  assumes "clients_wf r" and "\<And>c. name (f c) = name c" and "\<And>c. token (f c) = token c"
  shows "clients_wf (update_by_token r tok f)"
proof -
  have keys: "map fst (update_by_token r tok f) = map fst r"
    by (auto simp: update_by_token_def intro: map_map_first)
  have "\<forall>(k, c) \<in> set (update_by_token r tok f). k = to_lowercase (name c)"
    using assms(1,2) by (fastforce simp: clients_wf_def dest: set_update_by_token_cases)
  with assms show ?thesis
    by (simp add: clients_wf_def keys tokens_update_by_token)
qed

lemma clients_wf_insert [wf_preserve]:
  assumes "clients_wf r" and "tok \<notin> set (tokens r)"
  shows "clients_wf (hm_insert (to_lowercase n) (new_client n tok) r)"
proof -
  let ?r' = "hm_insert (to_lowercase n) (new_client n tok) r"
  have "distinct (map fst ?r')"
    using assms(1) by (simp add: clients_wf_def hm_insert_def distinct_update)
  moreover have "\<forall>(k, c) \<in> set ?r'. k = to_lowercase (name c)"
    using assms(1)
    by (auto simp: clients_wf_def hm_insert_def new_client_def dest: set_update_cases)
  moreover have "distinct (map (token \<circ> snd) ?r')"
  proof -
    have "(token \<circ> snd) (to_lowercase n, new_client n tok) \<notin> (token \<circ> snd) ` set r"
      using assms(2) by (simp add: tokens_def new_client_def)
    with assms(1) show ?thesis
      by (simp add: clients_wf_def tokens_def hm_insert_def distinct_map_update)
  qed
  ultimately show ?thesis
    by (simp add: clients_wf_def tokens_def)
qed

end
