(* ===== verification/Runtime.thy ===== *)
theory Runtime
  imports Registry
begin

text \<open>
  The parts of the tokio runtime that \<open>src/src/main.rs\<close> relies on, modelled at their
  interface (they are library code, not code of this repository): spawned timer tasks
  that sleep until a deadline and can be aborted through their \<open>JoinHandle\<close>, unbounded
  mpsc channels as message queues, and the clock in whole seconds. The record \<open>world\<close>
  is the state the handlers share: the registry behind the mutex, the timer tasks, the
  channel buffers and the time. A \<open>JoinHandle\<close> is a task id (an index into
  \<open>timers\<close>), an \<open>UnboundedSender\<close> a channel id (an index into \<open>chans\<close>).
\<close>

datatype timer_state = Sleeping nat | Cancelled | Fired

record timer_task =
  tm_token :: token
  tm_state :: timer_state

record world =
  clients :: clients
  timers :: "timer_task list"
  chans :: "message list list"
  now :: nat

text \<open>\<open>tokio::time::Duration::from_secs(10)\<close>: the grace period before eviction.\<close>

definition grace_period :: nat where
  "grace_period = 10"

text \<open>\<open>tokio::spawn\<close> of the eviction task: a new task that sleeps until
  \<open>now + grace_period\<close>; its handle is the new task id.\<close>

definition spawn_timer :: "token \<Rightarrow> 'a world_scheme \<Rightarrow> task_id \<times> 'a world_scheme" where
  "spawn_timer tok w =
     (length (timers w),
      w\<lparr>timers := timers w @ [\<lparr>tm_token = tok, tm_state = Sleeping (now w + grace_period)\<rparr>]\<rparr>)"

text \<open>\<open>JoinHandle::abort\<close>: a task that has not run its body is cancelled; aborting a
  finished or cancelled task does nothing.\<close>

definition abort_task :: "task_id \<Rightarrow> timer_task list \<Rightarrow> timer_task list" where
  "abort_task t ts =
     (if t < length ts then
        (case tm_state (ts ! t) of
           Sleeping _ \<Rightarrow> ts[t := (ts ! t)\<lparr>tm_state := Cancelled\<rparr>]
         | _ \<Rightarrow> ts)
      else ts)"

text \<open>\<open>unbounded_channel()\<close>: a new, empty queue.\<close>

definition new_chan :: "'a world_scheme \<Rightarrow> chan_id \<times> 'a world_scheme" where
  "new_chan w = (length (chans w), w\<lparr>chans := chans w @ [[]]\<rparr>)"

text \<open>\<open>UnboundedSender::send\<close>: appends to the queue; it never blocks.\<close>

definition chan_send :: "chan_id \<Rightarrow> message \<Rightarrow> message list list \<Rightarrow> message list list" where
  "chan_send i m qs = (if i < length qs then qs[i := qs ! i @ [m]] else qs)"

definition is_sleeping :: "timer_state \<Rightarrow> bool" where
  "is_sleeping st = (case st of Sleeping _ \<Rightarrow> True | _ \<Rightarrow> False)"

lemma is_sleeping_simps [simp]:
  "is_sleeping (Sleeping d)" "\<not> is_sleeping Cancelled" "\<not> is_sleeping Fired"
  by (simp_all add: is_sleeping_def)

lemma length_abort_task [simp]: "length (abort_task t ts) = length ts"
  by (simp add: abort_task_def split: timer_state.splits)

lemma abort_task_nth:
  "i < length ts \<Longrightarrow> abort_task t ts ! i =
     (if i = t \<and> is_sleeping (tm_state (ts ! i)) then (ts ! i)\<lparr>tm_state := Cancelled\<rparr> else ts ! i)"
  by (auto simp: abort_task_def is_sleeping_def split: timer_state.splits)

lemma tm_token_abort_task [simp]:
  "i < length ts \<Longrightarrow> tm_token (abort_task t ts ! i) = tm_token (ts ! i)"
  by (simp add: abort_task_nth)

lemma tm_token_set_state [simp]:
  "i < length ts \<Longrightarrow> tm_token (ts[t := (ts ! t)\<lparr>tm_state := st\<rparr>] ! i) = tm_token (ts ! i)"
  by (cases "i = t") auto

lemma length_chan_send [simp]: "length (chan_send i m qs) = length qs"
  by (simp add: chan_send_def)

lemma chan_send_nth:
  "j < length qs \<Longrightarrow> chan_send i m qs ! j = (if j = i then qs ! j @ [m] else qs ! j)"
  by (simp add: chan_send_def nth_list_update)

end
