(* ===== verification/Handlers.thy ===== *)
theory Handlers
  imports Runtime
begin

text \<open>
  The request handlers of \<open>src/src/main.rs\<close>, one definition per critical section
  (each runs while it holds the registry mutex) and one per handler where the handler
  is a single critical section. \<open>handle_registration\<close> takes the lock twice: the
  check (\<open>reg_check\<close>) and the insertion (\<open>reg_insert\<close>) are separate critical
  sections, and \<open>handle_registration\<close> is their composition when nothing runs in
  between. \<open>client_connected\<close> is split the same way into the attach
  (\<open>cc_attach\<close>) and the detach (\<open>cc_detach\<close>) sections, with the eviction task's body
  as \<open>timer_body\<close>. The generated token is a parameter: \<open>Uuid::new_v4()\<close> is the
  environment's choice.
\<close>

subsection \<open>Replies\<close>

text \<open>\<open>RegistrationResponse\<close> with status 200 and a token, or 406 and
  \<open>"The name is already taken"\<close>.\<close>

datatype reg_reply = RegOk token | NameTaken

text \<open>The branch \<open>handle_send_message\<close> returns by: \<open>Ok(reply())\<close> after the
  \<open>send\<close>, or the rejection of the \<open>get\<close> of the recipient, of the sender lookup, or of
  the recipient's missing \<open>tx\<close>.\<close>

datatype send_outcome = Sent | RecipientNotFound | SenderNotFound | RecipientNoChannel

text \<open>The status each branch carries on its own: warp's \<open>reject()\<close> is
  \<open>reject::not_found()\<close>, a 404. What the client receives is decided by the whole
  route table, where a later filter's rejection can take precedence (\<open>Routing\<close>).\<close>

fun send_http_status :: "send_outcome \<Rightarrow> nat" where
  "send_http_status Sent = 200"
| "send_http_status RecipientNotFound = 404"
| "send_http_status SenderNotFound = 404"
| "send_http_status RecipientNoChannel = 404"

text \<open>\<open>#[derive(Serialize)] struct Client\<close> with \<open>#[serde(skip)]\<close> on every field but
  \<open>name\<close>: the JSON of a client is its name.\<close>

definition client_json :: "client \<Rightarrow> string" where
  "client_json c = name c"

subsection \<open>Registration\<close>

definition reg_check :: "clients \<Rightarrow> string \<Rightarrow> bool" where
  "reg_check r n = contains_key r (to_lowercase n)"

definition reg_insert :: "string \<Rightarrow> token \<Rightarrow> clients \<Rightarrow> clients" where
  "reg_insert n tok r = hm_insert (to_lowercase n) (new_client n tok) r"

definition handle_registration ::
  "string \<Rightarrow> token \<Rightarrow> 'a world_scheme \<Rightarrow> reg_reply \<times> 'a world_scheme" where
  "handle_registration n tok w =
     (if reg_check (clients w) n then (NameTaken, w)
      else (RegOk tok, w\<lparr>clients := reg_insert n tok (clients w)\<rparr>))"

subsection \<open>Connection upgrade and lifecycle\<close>

text \<open>\<open>ws_handler\<close>: upgrade iff some client has the token.\<close>

definition ws_handler :: "token \<Rightarrow> 'a world_scheme \<Rightarrow> bool" where
  "ws_handler tok w = any_token (clients w) tok"

text \<open>First critical section of \<open>client_connected\<close>: find the client by token, take
  and abort its disconnect timer, install the new sender.\<close>

definition cc_attach :: "token \<Rightarrow> chan_id \<Rightarrow> 'a world_scheme \<Rightarrow> 'a world_scheme" where
  "cc_attach tok ch w =
     (case find_by_token (clients w) tok of
        None \<Rightarrow> w
      | Some (_, c) \<Rightarrow>
          w\<lparr>timers := (case disconnect_timer c of None \<Rightarrow> timers w
                                                | Some t \<Rightarrow> abort_task t (timers w)),
            clients := update_by_token (clients w) tok
                         (\<lambda>c. c\<lparr>disconnect_timer := None, tx := Some ch\<rparr>)\<rparr>)"

text \<open>Second critical section of \<open>client_connected\<close>, after the socket closed: find
  the client by token, spawn the eviction task and store its handle. The previous handle
  is overwritten (dropping a \<open>JoinHandle\<close> does not abort its task) and \<open>tx\<close> is
  left as it is.\<close>

definition cc_detach :: "token \<Rightarrow> 'a world_scheme \<Rightarrow> 'a world_scheme" where
  "cc_detach tok w =
     (case find_by_token (clients w) tok of
        None \<Rightarrow> w
      | Some _ \<Rightarrow>
          (let (t, w') = spawn_timer tok w
           in w'\<lparr>clients := update_by_token (clients w') tok
                              (\<lambda>c. c\<lparr>disconnect_timer := Some t\<rparr>)\<rparr>))"

text \<open>Body of the eviction task, after its sleep: remove every client with the token.\<close>

definition timer_body :: "token \<Rightarrow> 'a world_scheme \<Rightarrow> 'a world_scheme" where
  "timer_body tok w = w\<lparr>clients := retain_token (clients w) tok\<rparr>"

subsection \<open>Messages, status, listing\<close>

definition handle_send_message ::
  "token \<Rightarrow> string \<Rightarrow> string \<Rightarrow> 'a world_scheme \<Rightarrow> send_outcome \<times> 'a world_scheme" where
  "handle_send_message tok to b w =
     (case map_of (clients w) (to_lowercase to) of
        None \<Rightarrow> (RecipientNotFound, w)
      | Some rc \<Rightarrow>
          (case find_by_token (clients w) tok of
             None \<Rightarrow> (SenderNotFound, w)
           | Some (_, sc) \<Rightarrow>
               (case tx rc of
                  None \<Rightarrow> (RecipientNoChannel, w)
                | Some ch \<Rightarrow>
                    (Sent, w\<lparr>chans := chan_send ch \<lparr>msg_from = name sc, msg_body = b\<rparr> (chans w)\<rparr>))))"

definition handle_status :: "token \<Rightarrow> 'a world_scheme \<Rightarrow> string option" where
  "handle_status tok w = map_option (client_json \<circ> snd) (find_by_token (clients w) tok)"

definition handle_list_clients :: "'a world_scheme \<Rightarrow> string list" where
  "handle_list_clients w = map (client_json \<circ> snd) (clients w)"

subsection \<open>The world invariant\<close>

text \<open>Besides \<open>clients_wf\<close>, every \<open>tx\<close> names an existing channel and every
  \<open>disconnect_timer\<close> an existing task spawned for the client's own token.\<close>

definition ptrs_ok :: "'a world_scheme \<Rightarrow> client \<Rightarrow> bool" where
  "ptrs_ok w c \<longleftrightarrow>
     (\<forall>ch. tx c = Some ch \<longrightarrow> ch < length (chans w)) \<and>
     (\<forall>t. disconnect_timer c = Some t \<longrightarrow>
            t < length (timers w) \<and> tm_token (timers w ! t) = token c)"

definition world_wf :: "'a world_scheme \<Rightarrow> bool" where
  "world_wf w \<longleftrightarrow> clients_wf (clients w) \<and> (\<forall>e \<in> set (clients w). ptrs_ok w (snd e))"

subsection \<open>Example states\<close>

text \<open>Two registered clients: Alice, never connected, and Bob, whose connection
  closed, so that he holds both a sender (channel 0) and a sleeping eviction task
  (task 0). The witnesses below evaluate the handlers on this state.\<close>

definition demo_clients :: clients where
  "demo_clients =
     [(''alice'', \<lparr>name = ''Alice'', token = ''tA'', disconnect_timer = None, tx = None\<rparr>),
      (''bob'', \<lparr>name = ''Bob'', token = ''tB'', disconnect_timer = Some 0, tx = Some 0\<rparr>)]"

definition demo_world :: world where
  "demo_world = \<lparr>clients = demo_clients,
                  timers = [\<lparr>tm_token = ''tB'', tm_state = Sleeping 10\<rparr>], chans = [[]], now = 0\<rparr>"

lemmas [handler_defs] = reg_check_def reg_insert_def handle_registration_def ws_handler_def
  cc_attach_def cc_detach_def timer_body_def handle_send_message_def handle_status_def
  handle_list_clients_def

subsection \<open>Frame lemmas\<close>

lemma send_frame [simp]:
  "clients (snd (handle_send_message tok to b w)) = clients w"
  "timers (snd (handle_send_message tok to b w)) = timers w"
  "now (snd (handle_send_message tok to b w)) = now w"
  "length (chans (snd (handle_send_message tok to b w))) = length (chans w)"
  "world.more (snd (handle_send_message tok to b w)) = world.more w"
  by (auto simp: handle_send_message_def split: option.splits prod.splits)

lemma attach_frame [simp]:
  "chans (cc_attach tok ch w) = chans w" "now (cc_attach tok ch w) = now w"
  "world.more (cc_attach tok ch w) = world.more w"
  "length (timers (cc_attach tok ch w)) = length (timers w)"
  by (auto simp: cc_attach_def split: option.splits prod.splits)

lemma detach_frame [simp]:
  "chans (cc_detach tok w) = chans w" "now (cc_detach tok w) = now w"
  "world.more (cc_detach tok w) = world.more w"
  by (auto simp: cc_detach_def spawn_timer_def split: option.splits prod.splits)

lemma tokens_attach [simp]: "tokens (clients (cc_attach tok ch w)) = tokens (clients w)"
  by (auto simp: cc_attach_def tokens_update_by_token split: option.splits prod.splits)

lemma tokens_detach [simp]: "tokens (clients (cc_detach tok w)) = tokens (clients w)"
  by (auto simp: cc_detach_def spawn_timer_def tokens_update_by_token
      split: option.splits prod.splits)

lemma ptrs_ok_mono:
  assumes "ptrs_ok w c"
    and "length (chans w) \<le> length (chans w')" and "length (timers w) \<le> length (timers w')"
    and "\<And>i. i < length (timers w) \<Longrightarrow> tm_token (timers w' ! i) = tm_token (timers w ! i)"
  shows "ptrs_ok w' c"
  using assms by (fastforce simp: ptrs_ok_def)

lemma ptrs_ok_clients_upd [simp]: "ptrs_ok (w\<lparr>clients := r\<rparr>) c = ptrs_ok w c"
  by (simp add: ptrs_ok_def)

lemma ptrs_ok_new_client [simp]: "ptrs_ok w (new_client n tok)"
  by (simp add: ptrs_ok_def new_client_def)

lemma world_wf_reg_insert [wf_preserve]:
  assumes "world_wf w" and "tok \<notin> set (tokens (clients w))"
  shows "world_wf (w\<lparr>clients := reg_insert n tok (clients w)\<rparr>)"
proof -
  have "clients_wf (reg_insert n tok (clients w))"
    using assms by (simp add: world_wf_def reg_insert_def clients_wf_insert)
  moreover have "\<forall>e \<in> set (reg_insert n tok (clients w)). ptrs_ok (w\<lparr>clients := reg_insert n tok (clients w)\<rparr>) (snd e)"
    using assms(1) by (auto simp: world_wf_def reg_insert_def hm_insert_def ptrs_ok_def new_client_def dest!: set_update_cases)
  ultimately show ?thesis by (simp add: world_wf_def)
qed

lemma world_wf_registration [wf_preserve]:
  "world_wf w \<Longrightarrow> tok \<notin> set (tokens (clients w)) \<Longrightarrow>
   world_wf (snd (handle_registration n tok w))"
  by (simp add: handle_registration_def world_wf_reg_insert)

lemma world_wf_attach [wf_preserve]:
  assumes "world_wf w" and "ch < length (chans w)"
  shows "world_wf (cc_attach tok ch w)"
proof (cases "find_by_token (clients w) tok")
  case None
  with assms show ?thesis by (simp add: cc_attach_def)
next
  case (Some e)
  obtain k c where e: "e = (k, c)" by fastforce
  let ?ts = "case disconnect_timer c of None \<Rightarrow> timers w | Some t \<Rightarrow> abort_task t (timers w)"
  have same: "length ?ts = length (timers w)"
     "\<And>i. i < length (timers w) \<Longrightarrow> tm_token (?ts ! i) = tm_token (timers w ! i)"
    by (simp_all split: option.splits)
  have "\<forall>e' \<in> set (clients w). ptrs_ok (w\<lparr>timers := ?ts\<rparr>) (snd e')"
    using assms(1) same by (auto simp: world_wf_def intro: ptrs_ok_mono)
  then show ?thesis
    using assms Some e
    by (fastforce simp: cc_attach_def world_wf_def ptrs_ok_def
        intro: clients_wf_update_by_token dest: set_update_by_token_cases)
qed

lemma world_wf_detach [wf_preserve]:
  assumes "world_wf w"
  shows "world_wf (cc_detach tok w)"
proof (cases "find_by_token (clients w) tok")
  case None
  with assms show ?thesis by (simp add: cc_detach_def)
next
  case (Some e)
  let ?w' = "snd (spawn_timer tok w)"
  let ?f = "\<lambda>c. c\<lparr>disconnect_timer := Some (length (timers w))\<rparr>"
  have res: "cc_detach tok w = ?w'\<lparr>clients := update_by_token (clients w) tok ?f\<rparr>"
    using Some by (simp add: cc_detach_def spawn_timer_def)
  have wf: "clients_wf (update_by_token (clients w) tok ?f)"
    using assms by (simp add: world_wf_def clients_wf_update_by_token)
  have grow: "ptrs_ok ?w' c" if "ptrs_ok w c" for c
    using that by (rule ptrs_ok_mono) (auto simp: spawn_timer_def nth_append)
  have new: "ptrs_ok ?w' (?f c)" if "ptrs_ok w c" and "token c = tok" for c
    using that by (simp add: ptrs_ok_def spawn_timer_def nth_append)
  have "ptrs_ok ?w' (snd e')" if "e' \<in> set (update_by_token (clients w) tok ?f)" for e'
    using set_update_by_token_cases [OF that] assms grow new
    by (auto simp: world_wf_def)
  with wf show ?thesis
    by (simp add: res world_wf_def)
qed

lemma world_wf_timer_body [wf_preserve]: "world_wf w \<Longrightarrow> world_wf (timer_body tok w)"
  by (auto simp: world_wf_def timer_body_def retain_token_def ptrs_ok_def
      intro: clients_wf_retain [unfolded retain_token_def])

lemma world_wf_send [wf_preserve]: "world_wf w \<Longrightarrow> world_wf (snd (handle_send_message tok to b w))"
  by (auto simp: world_wf_def handle_send_message_def ptrs_ok_def
      split: option.splits prod.splits)

lemma world_wf_new_chan [wf_preserve]: "world_wf w \<Longrightarrow> world_wf (snd (new_chan w))"
  by (auto simp: world_wf_def new_chan_def ptrs_ok_def)

lemma world_wf_tick [wf_preserve]: "world_wf w \<Longrightarrow> world_wf (w\<lparr>now := n\<rparr>)"
  by (simp add: world_wf_def ptrs_ok_def)

lemma world_wf_set_timer_state [wf_preserve]:
  "world_wf w \<Longrightarrow> world_wf (w\<lparr>timers := (timers w)[t := (timers w ! t)\<lparr>tm_state := st\<rparr>]\<rparr>)"
  by (auto simp: world_wf_def intro: ptrs_ok_mono)

subsection \<open>Helper facts on the sections\<close>

lemma reg_insert_same_key:
  "to_lowercase n2 = to_lowercase n1 \<Longrightarrow>
   reg_insert n2 t2 (reg_insert n1 t1 r) = reg_insert n2 t2 r"
  by (simp add: reg_insert_def hm_insert_def)

lemma timers_attach_inactive:
  "i < length (timers w) \<Longrightarrow> \<not> is_sleeping (tm_state (timers w ! i)) \<Longrightarrow>
   timers (cc_attach tok ch w) ! i = timers w ! i"
  by (auto simp: cc_attach_def abort_task_nth split: option.splits)

lemma timers_detach_prefix:
  "i < length (timers w) \<Longrightarrow> i < length (timers (cc_detach tok w)) \<and> timers (cc_detach tok w) ! i = timers w ! i"
  by (auto simp: cc_detach_def spawn_timer_def nth_append split: option.splits)

subsection \<open>Registration\<close>

text \<open>Under the registry invariant the reply depends only on whether some registered
  display name folds to the same lower-case string.\<close>

text \<open>C4: Under the registry invariant, registration answers 406 (name taken) exactly when some registered display name lower-cases to the same string as the requested one, and 200 with the generated token otherwise.\<close>

theorem registration_reply:
  assumes "clients_wf (clients w)"
  shows "fst (handle_registration n tok w) =
           (if \<exists>e \<in> set (clients w). to_lowercase (name (snd e)) = to_lowercase n
            then NameTaken else RegOk tok)"
  using contains_key_wf [OF assms] by (simp add: handle_registration_def reg_check_def)

lemma registration_effect:
  assumes "clients_wf (clients w)" and "tok \<notin> set (tokens (clients w))"
    and "handle_registration n tok w = (RegOk t, w')"
  shows "t = tok \<and> find_by_token (clients w') tok = Some (to_lowercase n, new_client n tok)
         \<and> timers w' = timers w \<and> chans w' = chans w"
proof -
  have w': "w' = w\<lparr>clients := reg_insert n tok (clients w)\<rparr>" and t: "t = tok"
    using assms(3) by (auto simp: handle_registration_def split: if_splits)
  have "clients_wf (clients w')"
    using assms(1,2) by (simp add: w' reg_insert_def clients_wf_insert)
  moreover have "(to_lowercase n, new_client n tok) \<in> set (clients w')"
    by (simp add: w' reg_insert_def hm_insert_def in_set_update_new)
  ultimately show ?thesis
    using find_by_token_wf t w' by (simp add: new_client_def)
qed

text \<open>A successful registration with a fresh token makes the status endpoint for that token return the registered display name.\<close>

theorem registration_then_status:
  assumes "clients_wf (clients w)" and "tok \<notin> set (tokens (clients w))"
    and "handle_registration n tok w = (RegOk t, w')"
  shows "handle_status t w' = Some n"
  using registration_effect [OF assms]
  by (simp add: handle_status_def client_json_def new_client_def)

text \<open>C5: After a successful registration of a name, a registration of any name with the same lower-case form is refused and leaves the state unchanged.\<close>

theorem registration_case_conflict:
  assumes "handle_registration n1 t1 w = (RegOk t1', w1)"
    and "to_lowercase n2 = to_lowercase n1"
  shows "handle_registration n2 t2 w1 = (NameTaken, w1)"
proof -
  have "w1 = w\<lparr>clients := reg_insert n1 t1 (clients w)\<rparr>"
    using assms(1) by (auto simp: handle_registration_def split: if_splits)
  then have "reg_check (clients w1) n2"
    using assms(2) by (simp add: reg_check_def reg_insert_def contains_key_def hm_insert_def)
  then show ?thesis by (simp add: handle_registration_def)
qed

subsection \<open>Sending\<close>

text \<open>C15: handle_send_message looks up the recipient before the sender: an unknown recipient is answered with the recipient rejection whatever the sender token is.\<close>

theorem send_recipient_checked_first:
  assumes "map_of (clients w) (to_lowercase to) = None"
  shows "handle_send_message tok to b w = (RecipientNotFound, w)"
  using assms by (simp add: handle_send_message_def)

text \<open>C16: Every rejection of handle_send_message leaves the whole state unchanged.\<close>

theorem send_error_no_effect:
  assumes "handle_send_message tok to b w = (r, w')" and "r \<noteq> Sent"
  shows "w' = w"
  using assms by (auto simp: handle_send_message_def split: option.splits prod.splits)

text \<open>C6: When handle_send_message answers 200, the sender was found by token, the recipient by lower-cased name with a sender half installed, and exactly one message carrying the sender's display name and the body was appended to that channel; nothing else changed.\<close>

theorem send_delivers:
  assumes "world_wf w" and "handle_send_message tok to b w = (Sent, w')"
  shows "\<exists>k sc rc ch. (k, sc) \<in> set (clients w) \<and> token sc = tok \<and>
           map_of (clients w) (to_lowercase to) = Some rc \<and> tx rc = Some ch \<and>
           ch < length (chans w) \<and>
           chans w' = (chans w)[ch := chans w ! ch @ [\<lparr>msg_from = name sc, msg_body = b\<rparr>]] \<and>
           clients w' = clients w \<and> timers w' = timers w \<and> now w' = now w"
proof -
  obtain rc where rc: "map_of (clients w) (to_lowercase to) = Some rc"
    using assms(2) by (auto simp: handle_send_message_def split: option.splits)
  obtain k sc where sc: "find_by_token (clients w) tok = Some (k, sc)"
    using assms(2) rc by (auto simp: handle_send_message_def split: option.splits)
  obtain ch where ch: "tx rc = Some ch"
    using assms(2) rc sc by (auto simp: handle_send_message_def split: option.splits)
  have "ch < length (chans w)"
    using assms(1) rc ch by (force simp: world_wf_def ptrs_ok_def dest: map_of_SomeD)
  moreover have "(k, sc) \<in> set (clients w) \<and> token sc = tok"
    using find_by_token_SomeD [OF sc] by simp
  ultimately show ?thesis
    using assms(2) rc sc ch
    by (intro exI [of _ k] exI [of _ sc] exI [of _ rc] exI [of _ ch])
       (auto simp: handle_send_message_def chan_send_def)
qed

subsection \<open>Attach, detach, eviction\<close>

text \<open>C13: The attach section of client_connected installs the new sender and clears the timer handle of the client with the token, and the task that handle named is no longer sleeping, so it cannot evict the client.\<close>

theorem attach_installs_and_cancels:
  assumes "world_wf w" and "(k, c) \<in> set (clients w)" and "token c = tok"
  shows "(k, c\<lparr>disconnect_timer := None, tx := Some ch\<rparr>) \<in> set (clients (cc_attach tok ch w)) \<and>
         (\<forall>t. disconnect_timer c = Some t \<longrightarrow>
                \<not> is_sleeping (tm_state (timers (cc_attach tok ch w) ! t)))"
proof -
  have wf: "clients_wf (clients w)" and p: "ptrs_ok w c"
    using assms(1,2) by (auto simp: world_wf_def)
  have found: "find_by_token (clients w) tok = Some (k, c)"
    using find_by_token_wf [OF wf] assms(2,3) by simp
  have "(k, c\<lparr>disconnect_timer := None, tx := Some ch\<rparr>) \<in> set (clients (cc_attach tok ch w))"
    using update_by_token_found [OF wf assms(2,3)] found by (simp add: cc_attach_def)
  moreover have "\<not> is_sleeping (tm_state (timers (cc_attach tok ch w) ! t))"
    if "disconnect_timer c = Some t" for t
    using that p found by (auto simp: cc_attach_def ptrs_ok_def abort_task_nth)
  ultimately show ?thesis by blast
qed

text \<open>C14: The detach section of client_connected stores the handle of a newly spawned eviction task due at now + 10 and keeps the client's sender; the tasks spawned before are left as they were, none is aborted.\<close>

theorem detach_keeps_channel:
  assumes "world_wf w" and "(k, c) \<in> set (clients w)" and "token c = tok"
  shows "(k, c\<lparr>disconnect_timer := Some (length (timers w))\<rparr>) \<in> set (clients (cc_detach tok w)) \<and>
         timers (cc_detach tok w) =
           timers w @ [\<lparr>tm_token = tok, tm_state = Sleeping (now w + grace_period)\<rparr>]"
proof -
  have wf: "clients_wf (clients w)"
    using assms(1) by (simp add: world_wf_def)
  have found: "find_by_token (clients w) tok = Some (k, c)"
    using find_by_token_wf [OF wf] assms(2,3) by simp
  show ?thesis
    using update_by_token_found [OF wf assms(2,3)] found
    by (simp add: cc_detach_def spawn_timer_def)
qed

subsection \<open>Status and listing\<close>

subsection \<open>Evaluation on the example state\<close>

lemma demo_lower [simp]:
  "to_lowercase ''Alice'' = ''alice''" "to_lowercase ''ALICE'' = ''alice''"
  "to_lowercase ''alice'' = ''alice''" "to_lowercase ''Bob'' = ''bob''"
  "to_lowercase ''BOB'' = ''bob''" "to_lowercase ''bob'' = ''bob''"
  by code_simp+

lemma demo_clients_wf: "clients_wf demo_clients"
  by (simp add: clients_wf_def demo_clients_def tokens_def)

lemma demo_world_wf: "world_wf demo_world"
  by (simp add: world_wf_def demo_world_def demo_clients_def ptrs_ok_def demo_clients_wf
      [unfolded demo_clients_def])

subsection \<open>Witnesses\<close>

theorem registration_reply_witness:
  "clients_wf (clients demo_world) \<and> fst (handle_registration ''ALICE'' ''tC'' demo_world) = NameTaken"
proof -
  have wf: "clients_wf (clients demo_world)"
    using demo_clients_wf by (simp add: demo_world_def)
  show ?thesis
    using wf registration_reply [OF wf, of "''ALICE''" "''tC''"]
    by (simp add: demo_world_def demo_clients_def)
qed

theorem registration_then_status_witness:
  "clients_wf (clients demo_world) \<and> ''tC'' \<notin> set (tokens (clients demo_world)) \<and>
   handle_status ''tC'' (snd (handle_registration ''Carol'' ''tC'' demo_world)) = Some ''Carol''"
proof -
  have wf: "clients_wf (clients demo_world)"
    using demo_clients_wf by (simp add: demo_world_def)
  have fresh: "''tC'' \<notin> set (tokens (clients demo_world))"
    by (simp add: demo_world_def demo_clients_def tokens_def)
  have lc: "to_lowercase ''Carol'' = ''carol''" by code_simp
  have ok: "handle_registration ''Carol'' ''tC'' demo_world =
              (RegOk ''tC'', snd (handle_registration ''Carol'' ''tC'' demo_world))"
    by (simp add: handle_registration_def reg_check_def contains_key_def lc demo_world_def
        demo_clients_def)
  show ?thesis
    using wf fresh registration_then_status [OF wf fresh ok] by simp
qed

theorem registration_case_conflict_witness:
  "handle_registration ''alice'' ''t2''
     (snd (handle_registration ''Alice'' ''t1'' \<lparr>clients = [], timers = [], chans = [], now = 0\<rparr>)) =
   (NameTaken, snd (handle_registration ''Alice'' ''t1'' \<lparr>clients = [], timers = [], chans = [], now = 0\<rparr>))"
proof -
  let ?w = "\<lparr>clients = [], timers = [], chans = [], now = 0\<rparr> :: world"
  have ok: "handle_registration ''Alice'' ''t1'' ?w = (RegOk ''t1'', snd (handle_registration ''Alice'' ''t1'' ?w))"
    by (simp add: handle_registration_def reg_check_def contains_key_def)
  have lc: "to_lowercase ''alice'' = to_lowercase ''Alice''" by simp
  show ?thesis by (rule registration_case_conflict [OF ok lc])
qed

theorem send_recipient_checked_first_witness:
  "map_of (clients demo_world) (to_lowercase ''Carol'') = None \<and>
   ''nobody'' \<notin> set (tokens (clients demo_world)) \<and>
   handle_send_message ''nobody'' ''Carol'' ''hi'' demo_world = (RecipientNotFound, demo_world)"
proof -
  have lc: "to_lowercase ''Carol'' = ''carol''" by code_simp
  have none: "map_of (clients demo_world) (to_lowercase ''Carol'') = None"
    by (simp add: lc demo_world_def demo_clients_def)
  show ?thesis
    using none send_recipient_checked_first [OF none, of "''nobody''" "''hi''"]
    by (simp add: demo_world_def demo_clients_def tokens_def)
qed

theorem send_error_no_effect_witness:
  "handle_send_message ''tA'' ''Alice'' ''hi'' demo_world = (RecipientNoChannel, demo_world) \<and>
   RecipientNoChannel \<noteq> Sent"
proof -
  have eq: "handle_send_message ''tA'' ''Alice'' ''hi'' demo_world =
              (RecipientNoChannel, snd (handle_send_message ''tA'' ''Alice'' ''hi'' demo_world))"
    by (simp add: handle_send_message_def find_by_token_def has_token_def demo_world_def
        demo_clients_def)
  have "snd (handle_send_message ''tA'' ''Alice'' ''hi'' demo_world) = demo_world"
    using send_error_no_effect [OF eq] by simp
  with eq show ?thesis by simp
qed

theorem send_delivers_witness:
  "world_wf demo_world \<and>
   handle_send_message ''tA'' ''BOB'' ''hi'' demo_world =
     (Sent, demo_world\<lparr>chans := [[\<lparr>msg_from = ''Alice'', msg_body = ''hi''\<rparr>]]\<rparr>) \<and>
   (\<exists>k sc. (k, sc) \<in> set (clients demo_world) \<and> token sc = ''tA'' \<and> name sc = ''Alice'')"
proof -
  have eq: "handle_send_message ''tA'' ''BOB'' ''hi'' demo_world =
              (Sent, demo_world\<lparr>chans := [[\<lparr>msg_from = ''Alice'', msg_body = ''hi''\<rparr>]]\<rparr>)"
    by (simp add: handle_send_message_def find_by_token_def has_token_def demo_world_def
        demo_clients_def chan_send_def)
  obtain k sc rc ch where "(k, sc) \<in> set (clients demo_world)" and "token sc = ''tA''"
    and "chans (demo_world\<lparr>chans := [[\<lparr>msg_from = ''Alice'', msg_body = ''hi''\<rparr>]]\<rparr>) =
         (chans demo_world)[ch := chans demo_world ! ch @ [\<lparr>msg_from = name sc, msg_body = ''hi''\<rparr>]]"
    and "ch < length (chans demo_world)"
    using send_delivers [OF demo_world_wf eq] by blast
  moreover from this have "name sc = ''Alice''"
    by (auto simp: demo_world_def demo_clients_def)
  ultimately show ?thesis
    using demo_world_wf eq by blast
qed

theorem attach_installs_and_cancels_witness:
  "world_wf demo_world \<and>
   (''bob'', \<lparr>name = ''Bob'', token = ''tB'', disconnect_timer = None, tx = Some 0\<rparr>)
      \<in> set (clients (cc_attach ''tB'' 0 demo_world)) \<and>
   \<not> is_sleeping (tm_state (timers (cc_attach ''tB'' 0 demo_world) ! 0))"
proof -
  let ?c = "\<lparr>name = ''Bob'', token = ''tB'', disconnect_timer = Some 0, tx = Some 0\<rparr>"
  have mem: "(''bob'', ?c) \<in> set (clients demo_world)"
    by (simp add: demo_world_def demo_clients_def)
  show ?thesis
    using demo_world_wf attach_installs_and_cancels [OF demo_world_wf mem, of "''tB''" 0]
    by simp
qed

theorem detach_keeps_channel_witness:
  "world_wf demo_world \<and>
   (''bob'', \<lparr>name = ''Bob'', token = ''tB'', disconnect_timer = Some 1, tx = Some 0\<rparr>)
      \<in> set (clients (cc_detach ''tB'' demo_world)) \<and>
   timers (cc_detach ''tB'' demo_world) =
     [\<lparr>tm_token = ''tB'', tm_state = Sleeping 10\<rparr>, \<lparr>tm_token = ''tB'', tm_state = Sleeping 10\<rparr>]"
proof -
  let ?c = "\<lparr>name = ''Bob'', token = ''tB'', disconnect_timer = Some 0, tx = Some 0\<rparr>"
  have mem: "(''bob'', ?c) \<in> set (clients demo_world)"
    by (simp add: demo_world_def demo_clients_def)
  show ?thesis
    using demo_world_wf detach_keeps_channel [OF demo_world_wf mem, of "''tB''"]
    by (simp add: demo_world_def grace_period_def)
qed

end
