(* ===== verification/Server.thy ===== *)
theory Server
  imports Handlers
begin

text \<open>
  The running server as a state machine. The registry mutex serialises the critical
  sections, so an execution is an interleaving of atomic steps: one per critical section
  of a handler, plus the moves of the environment (a socket closing, the outbound pump
  forwarding a message, the clock ticking, an eviction task waking up). \<open>sys\<close> extends
  the shared \<open>world\<close> with the state of the tasks between their critical sections:
  registrations that passed the name check and wait to insert (\<open>pending\<close>), the
  websocket connections with the frames their peers received (\<open>conns\<close>), and two ghost
  records, the tokens \<open>Uuid::new_v4\<close> has produced (\<open>issued\<close>) and the registration
  replies sent (\<open>replies\<close>). \<open>step\<close> is executable, \<open>run\<close> executes a schedule, and
  \<open>reachable\<close> is the set of states of all schedules.
\<close>

datatype conn_phase = Upgrading | Open | Closed | Done

record conn =
  c_token :: token
  c_chan :: chan_id
  c_phase :: conn_phase
  c_frames :: "message list"

record sys = world +
  pending :: "(string \<times> token) list"
  conns :: "conn list"
  issued :: "token list"
  replies :: "reg_reply list"

definition init_sys :: sys where
  "init_sys = \<lparr>clients = [], timers = [], chans = [], now = 0,
               pending = [], conns = [], issued = [], replies = []\<rparr>"

text \<open>One constructor per atomic step. \<open>RegCheck\<close> is the first critical section of
  \<open>handle_registration\<close> together with the token generation after it, \<open>RegCommit\<close> the
  second; \<open>WsUpgrade\<close> is \<open>ws_handler\<close>; \<open>Attach\<close> and \<open>Detach\<close> the two critical
  sections of \<open>client_connected\<close> for the connection with that index; \<open>PeerClose\<close> the
  end of its inbound loop; \<open>Pump\<close> one iteration of its outbound task; \<open>TimerFire\<close> the
  eviction task's body after its sleep.\<close>

datatype event =
    RegCheck string token
  | RegCommit string token
  | WsUpgrade token
  | Attach nat
  | PeerClose nat
  | Detach nat
  | Pump nat
  | Tick
  | TimerFire task_id
  | SendMessage token string string

definition set_phase :: "nat \<Rightarrow> conn_phase \<Rightarrow> conn list \<Rightarrow> conn list" where
  "set_phase i p cs = cs[i := (cs ! i)\<lparr>c_phase := p\<rparr>]"

text \<open>\<open>ws_handler\<close> and, on success, the upgrade: \<open>client_connected\<close> starts with a
  fresh channel; a rejected upgrade changes nothing.\<close>

definition ws_upgrade :: "token \<Rightarrow> sys \<Rightarrow> sys" where
  "ws_upgrade tok s =
     (if ws_handler tok s then
        (let (ch, s') = new_chan s
         in s'\<lparr>conns := conns s' @ [\<lparr>c_token = tok, c_chan = ch, c_phase = Upgrading, c_frames = []\<rparr>]\<rparr>)
      else s)"

text \<open>The outbound task: \<open>client_rx.recv()\<close> takes the oldest message; \<open>ws_tx.send\<close>
  delivers it while the socket is open, and its error is ignored once the socket closed.\<close>

definition pump :: "nat \<Rightarrow> sys \<Rightarrow> sys option" where
  "pump i s =
     (if i < length (conns s) \<and> c_chan (conns s ! i) < length (chans s) then
        (let c = conns s ! i in
         case chans s ! c_chan c of
           [] \<Rightarrow> None
         | m # ms \<Rightarrow>
             Some (s\<lparr>chans := (chans s)[c_chan c := ms],
                     conns := (if c_phase c = Open
                               then (conns s)[i := c\<lparr>c_frames := c_frames c @ [m]\<rparr>]
                               else conns s)\<rparr>))
      else None)"

definition fire_timer :: "task_id \<Rightarrow> sys \<Rightarrow> sys option" where
  "fire_timer t s =
     (if t < length (timers s) then
        (case tm_state (timers s ! t) of
           Sleeping d \<Rightarrow>
             if d \<le> now s then
               Some (timer_body (tm_token (timers s ! t))
                       (s\<lparr>timers := (timers s)[t := (timers s ! t)\<lparr>tm_state := Fired\<rparr>]\<rparr>))
             else None
         | _ \<Rightarrow> None)
      else None)"

fun step :: "event \<Rightarrow> sys \<Rightarrow> sys option" where
  "step (RegCheck n tok) s =
     (if reg_check (clients s) n then Some (s\<lparr>replies := replies s @ [NameTaken]\<rparr>)
      else if tok \<in> set (issued s) then None
      else Some (s\<lparr>pending := pending s @ [(n, tok)], issued := issued s @ [tok]\<rparr>))"
| "step (RegCommit n tok) s =
     (if (n, tok) \<in> set (pending s) then
        Some (s\<lparr>clients := reg_insert n tok (clients s), pending := remove1 (n, tok) (pending s),
                replies := replies s @ [RegOk tok]\<rparr>)
      else None)"
| "step (WsUpgrade tok) s = Some (ws_upgrade tok s)"
| "step (Attach i) s =
     (if i < length (conns s) \<and> c_phase (conns s ! i) = Upgrading then
        Some ((cc_attach (c_token (conns s ! i)) (c_chan (conns s ! i)) s)
                \<lparr>conns := set_phase i Open (conns s)\<rparr>)
      else None)"
| "step (PeerClose i) s =
     (if i < length (conns s) \<and> c_phase (conns s ! i) = Open then
        Some (s\<lparr>conns := set_phase i Closed (conns s)\<rparr>)
      else None)"
| "step (Detach i) s =
     (if i < length (conns s) \<and> c_phase (conns s ! i) = Closed then
        Some ((cc_detach (c_token (conns s ! i)) s)\<lparr>conns := set_phase i Done (conns s)\<rparr>)
      else None)"
| "step (Pump i) s = pump i s"
| "step Tick s = Some (s\<lparr>now := Suc (now s)\<rparr>)"
| "step (TimerFire t) s = fire_timer t s"
| "step (SendMessage tok to b) s = Some (snd (handle_send_message tok to b s))"

fun run :: "event list \<Rightarrow> sys \<Rightarrow> sys option" where
  "run [] s = Some s"
| "run (e # es) s = (case step e s of None \<Rightarrow> None | Some s' \<Rightarrow> run es s')"

inductive reachable :: "sys \<Rightarrow> bool" where
  init: "reachable init_sys"
| step: "reachable s \<Longrightarrow> step e s = Some s' \<Longrightarrow> reachable s'"

text \<open>The invariant: the world invariant; every token in the registry or in a pending
  registration was issued; pending tokens are distinct and not yet in the registry;
  every connection's channel exists.\<close>

definition sys_inv :: "sys \<Rightarrow> bool" where
  "sys_inv s \<longleftrightarrow>
     world_wf s \<and>
     set (tokens (clients s)) \<subseteq> set (issued s) \<and>
     (\<forall>p \<in> set (pending s). snd p \<in> set (issued s) \<and> snd p \<notin> set (tokens (clients s))) \<and>
     distinct (map snd (pending s)) \<and>
     (\<forall>c \<in> set (conns s). c_chan c < length (chans s))"

subsection \<open>The invariant holds in every reachable state\<close>

lemma world_wf_sys_upd [simp]:
  "world_wf (s\<lparr>conns := cs\<rparr>) = world_wf s" "world_wf (s\<lparr>pending := ps\<rparr>) = world_wf s"
  "world_wf (s\<lparr>issued := is\<rparr>) = world_wf s" "world_wf (s\<lparr>replies := rs\<rparr>) = world_wf s"
  by (simp_all add: world_wf_def ptrs_ok_def)

lemma sys_fields_handlers [simp]:
  "pending (cc_attach tok ch s) = pending s" "issued (cc_attach tok ch s) = issued s"
  "pending (cc_detach tok s) = pending s" "issued (cc_detach tok s) = issued s"
  "conns (cc_detach tok s) = conns s" "conns (cc_attach tok ch s) = conns s"
  "pending (snd (handle_send_message tok to b s)) = pending s"
  "issued (snd (handle_send_message tok to b s)) = issued s"
  "conns (snd (handle_send_message tok to b s)) = conns s"
  "pending (timer_body tok s) = pending s" "issued (timer_body tok s) = issued s"
  "conns (timer_body tok s) = conns s" "chans (timer_body tok s) = chans s"
  by (auto simp: cc_attach_def cc_detach_def spawn_timer_def handle_send_message_def timer_body_def
      split: option.splits prod.splits)

lemma map_c_chan_set_phase [simp]: "map c_chan (set_phase i p cs) = map c_chan cs"
  by (cases "i < length cs")
     (auto simp: set_phase_def list_eq_iff_nth_eq nth_list_update list_update_beyond)

lemma c_chan_bound_set_phase:
  assumes "\<forall>c \<in> set cs. c_chan c < n"
  shows "\<forall>c \<in> set (set_phase i p cs). c_chan c < n"
proof
  fix c assume c: "c \<in> set (set_phase i p cs)"
  have "c_chan c \<in> set (map c_chan (set_phase i p cs))"
    using c by (simp only: set_map) (rule imageI)
  then have "c_chan c \<in> set (map c_chan cs)" by (simp only: map_c_chan_set_phase)
  then show "c_chan c < n" using assms by auto
qed

lemma sys_inv_D:
  "sys_inv s \<Longrightarrow> world_wf s"
  "sys_inv s \<Longrightarrow> \<forall>c \<in> set (conns s). c_chan c < length (chans s)"
  by (simp_all add: sys_inv_def)

lemma sys_inv_frame:
  assumes "sys_inv s" and "world_wf s'"
    and "set (tokens (clients s')) \<subseteq> set (tokens (clients s))"
    and "pending s' = pending s" and "issued s' = issued s"
    and "\<forall>c \<in> set (conns s'). c_chan c < length (chans s')"
  shows "sys_inv s'"
  using assms by (auto simp: sys_inv_def)

lemma sys_inv_replies [simp]: "sys_inv (s\<lparr>replies := rs\<rparr>) = sys_inv s"
  by (simp add: sys_inv_def)

lemma inv_RegCheck: "sys_inv s \<Longrightarrow> step (RegCheck n tok) s = Some s' \<Longrightarrow> sys_inv s'"
proof (cases "reg_check (clients s) n")
  case False
  assume inv: "sys_inv s" and st: "step (RegCheck n tok) s = Some s'"
  with False have fresh: "tok \<notin> set (issued s)"
    and s': "s' = s\<lparr>pending := pending s @ [(n, tok)], issued := issued s @ [tok]\<rparr>"
    by (auto split: if_splits)
  from inv fresh have "tok \<notin> snd ` set (pending s)" and "tok \<notin> set (tokens (clients s))"
    by (auto simp: sys_inv_def)
  with inv show ?thesis
    by (auto simp: s' sys_inv_def)
qed auto

lemma inv_RegCommit: "sys_inv s \<Longrightarrow> step (RegCommit n tok) s = Some s' \<Longrightarrow> sys_inv s'"
proof -
  assume inv: "sys_inv s" and st: "step (RegCommit n tok) s = Some s'"
  then have p: "(n, tok) \<in> set (pending s)"
    and s': "s' = s\<lparr>clients := reg_insert n tok (clients s), pending := remove1 (n, tok) (pending s),
                replies := replies s @ [RegOk tok]\<rparr>"
    by (auto split: if_splits)
  have fresh: "tok \<notin> set (tokens (clients s))" and iss: "tok \<in> set (issued s)"
    using inv p by (auto simp: sys_inv_def)
  have wf: "world_wf (s\<lparr>clients := reg_insert n tok (clients s)\<rparr>)"
    using inv fresh by (simp add: sys_inv_def world_wf_reg_insert)
  have tk: "set (tokens (reg_insert n tok (clients s))) \<subseteq> insert tok (set (tokens (clients s)))"
    using set_tokens_insert [of "to_lowercase n" "new_client n tok"]
    by (simp add: reg_insert_def new_client_def)
  have notin: "tok \<notin> snd ` set (remove1 (n, tok) (pending s))"
    using map_remove1_notin [of snd "pending s" "(n, tok)"] inv p by (simp add: sys_inv_def)
  have pend: "\<forall>p' \<in> set (remove1 (n, tok) (pending s)).
          snd p' \<in> set (issued s) \<and> snd p' \<notin> set (tokens (reg_insert n tok (clients s)))"
  proof
    fix p' assume p': "p' \<in> set (remove1 (n, tok) (pending s))"
    then have "p' \<in> set (pending s)"
      using set_remove1_subset by fast
    then have a: "snd p' \<in> set (issued s)" and b: "snd p' \<notin> set (tokens (clients s))"
      using inv by (simp_all add: sys_inv_def)
    have c: "snd p' \<noteq> tok"
      using notin p' by force
    show "snd p' \<in> set (issued s) \<and> snd p' \<notin> set (tokens (reg_insert n tok (clients s)))"
      using a b c tk by blast
  qed
  have t1: "set (tokens (reg_insert n tok (clients s))) \<subseteq> set (issued s)"
    using tk iss inv by (auto simp: sys_inv_def)
  have dist: "distinct (map snd (remove1 (n, tok) (pending s)))"
    using inv by (simp add: sys_inv_def distinct_map_remove1)
  have cn: "\<forall>c \<in> set (conns s). c_chan c < length (chans s)"
    using inv by (simp add: sys_inv_def)
  show "sys_inv s'"
    unfolding sys_inv_def using wf t1 pend dist cn by (simp add: s')
qed

lemma inv_WsUpgrade: "sys_inv s \<Longrightarrow> step (WsUpgrade tok) s = Some s' \<Longrightarrow> sys_inv s'"
proof -
  assume inv: "sys_inv s" and st: "step (WsUpgrade tok) s = Some s'"
  show "sys_inv s'"
  proof (cases "ws_handler tok s")
    case True
    then have s': "s' = s\<lparr>chans := chans s @ [[]],
        conns := conns s @ [\<lparr>c_token = tok, c_chan = length (chans s), c_phase = Upgrading, c_frames = []\<rparr>]\<rparr>"
      using st by (simp add: ws_upgrade_def new_chan_def)
    have "world_wf (s\<lparr>chans := chans s @ [[]]\<rparr>)"
      using world_wf_new_chan [OF sys_inv_D(1) [OF inv]] by (simp add: new_chan_def)
    moreover have "\<forall>c \<in> set (conns s'). c_chan c < length (chans s')"
      using sys_inv_D(2) [OF inv] by (auto simp: s' less_SucI)
    ultimately show ?thesis
      by (intro sys_inv_frame [OF inv]) (simp_all add: s')
  next
    case False
    with st inv show ?thesis by (simp add: ws_upgrade_def)
  qed
qed

lemma inv_Attach: "sys_inv s \<Longrightarrow> step (Attach i) s = Some s' \<Longrightarrow> sys_inv s'"
proof -
  assume inv: "sys_inv s" and st: "step (Attach i) s = Some s'"
  then have i: "i < length (conns s)"
    and s': "s' = (cc_attach (c_token (conns s ! i)) (c_chan (conns s ! i)) s)
                    \<lparr>conns := set_phase i Open (conns s)\<rparr>"
    by (auto split: if_splits)
  have ch: "c_chan (conns s ! i) < length (chans s)"
    using sys_inv_D(2) [OF inv] i by simp
  have "world_wf (cc_attach (c_token (conns s ! i)) (c_chan (conns s ! i)) s)"
    using sys_inv_D(1) [OF inv] ch by (rule world_wf_attach)
  moreover have "\<forall>c \<in> set (conns s'). c_chan c < length (chans s')"
    using sys_inv_D(2) [OF inv] by (simp add: s' c_chan_bound_set_phase)
  ultimately show ?thesis
    by (intro sys_inv_frame [OF inv]) (simp_all add: s')
qed

lemma inv_PeerClose: "sys_inv s \<Longrightarrow> step (PeerClose i) s = Some s' \<Longrightarrow> sys_inv s'"
proof -
  assume inv: "sys_inv s" and st: "step (PeerClose i) s = Some s'"
  then have s': "s' = s\<lparr>conns := set_phase i Closed (conns s)\<rparr>"
    by (auto split: if_splits)
  have "\<forall>c \<in> set (conns s'). c_chan c < length (chans s')"
    using sys_inv_D(2) [OF inv] by (simp add: s' c_chan_bound_set_phase)
  with sys_inv_D(1) [OF inv] show ?thesis
    by (intro sys_inv_frame [OF inv]) (simp_all add: s')
qed

lemma inv_Detach: "sys_inv s \<Longrightarrow> step (Detach i) s = Some s' \<Longrightarrow> sys_inv s'"
proof -
  assume inv: "sys_inv s" and st: "step (Detach i) s = Some s'"
  then have s': "s' = (cc_detach (c_token (conns s ! i)) s)\<lparr>conns := set_phase i Done (conns s)\<rparr>"
    by (auto split: if_splits)
  have "world_wf (cc_detach (c_token (conns s ! i)) s)"
    using sys_inv_D(1) [OF inv] by (rule world_wf_detach)
  moreover have "\<forall>c \<in> set (conns s'). c_chan c < length (chans s')"
    using sys_inv_D(2) [OF inv] by (simp add: s' c_chan_bound_set_phase)
  ultimately show ?thesis
    by (intro sys_inv_frame [OF inv]) (simp_all add: s')
qed

lemma inv_Pump: "sys_inv s \<Longrightarrow> step (Pump i) s = Some s' \<Longrightarrow> sys_inv s'"
proof -
  assume inv: "sys_inv s" and st: "step (Pump i) s = Some s'"
  then obtain m ms where i: "i < length (conns s)"
    and s': "s' = s\<lparr>chans := (chans s)[c_chan (conns s ! i) := ms],
               conns := (if c_phase (conns s ! i) = Open
                         then (conns s)[i := (conns s ! i)\<lparr>c_frames := c_frames (conns s ! i) @ [m]\<rparr>]
                         else conns s)\<rparr>"
    by (auto simp: pump_def Let_def split: if_splits list.splits)
  have "\<forall>c \<in> set (conns s'). c_chan c < length (chans s')"
    using sys_inv_D(2) [OF inv] i
    by (auto simp: s' dest!: subsetD [OF set_update_subset_insert])
  moreover have "world_wf s'"
    using sys_inv_D(1) [OF inv] by (simp add: s' world_wf_def ptrs_ok_def)
  ultimately show ?thesis
    by (intro sys_inv_frame [OF inv]) (simp_all add: s')
qed

lemma sys_inv_now [simp]: "sys_inv (s\<lparr>now := n\<rparr>) = sys_inv s"
  by (simp add: sys_inv_def world_wf_def ptrs_ok_def)

lemma inv_Tick: "sys_inv s \<Longrightarrow> step Tick s = Some s' \<Longrightarrow> sys_inv s'"
  by auto

lemma inv_TimerFire: "sys_inv s \<Longrightarrow> step (TimerFire t) s = Some s' \<Longrightarrow> sys_inv s'"
proof -
  assume inv: "sys_inv s" and st: "step (TimerFire t) s = Some s'"
  then obtain s1 where s': "s' = timer_body (tm_token (timers s ! t)) s1"
    and s1: "s1 = s\<lparr>timers := (timers s)[t := (timers s ! t)\<lparr>tm_state := Fired\<rparr>]\<rparr>"
    by (auto simp: fire_timer_def split: if_splits timer_state.splits)
  have "world_wf s1"
    using sys_inv_D(1) [OF inv] by (simp add: s1 world_wf_set_timer_state)
  then have "world_wf s'"
    by (simp add: s' world_wf_timer_body)
  moreover have "\<forall>c \<in> set (conns s'). c_chan c < length (chans s')"
    using sys_inv_D(2) [OF inv] by (simp add: s' s1)
  ultimately show ?thesis
    by (intro sys_inv_frame [OF inv]) (auto simp: s' s1 timer_body_def)
qed

lemma inv_SendMessage: "sys_inv s \<Longrightarrow> step (SendMessage tok to b) s = Some s' \<Longrightarrow> sys_inv s'"
proof -
  assume inv: "sys_inv s" and st: "step (SendMessage tok to b) s = Some s'"
  then have s': "s' = snd (handle_send_message tok to b s)" by simp
  have "world_wf s'"
    using sys_inv_D(1) [OF inv] by (simp add: s' world_wf_send)
  moreover have "\<forall>c \<in> set (conns s'). c_chan c < length (chans s')"
    using sys_inv_D(2) [OF inv] by (simp add: s')
  ultimately show ?thesis
    by (intro sys_inv_frame [OF inv]) (simp_all add: s')
qed

lemma step_inv:
  assumes inv: "sys_inv s" and st: "step e s = Some s'"
  shows "sys_inv s'"
proof (cases e)
  case (RegCheck n tok)
  from st show ?thesis unfolding RegCheck by (rule inv_RegCheck [OF inv])
next
  case (RegCommit n tok)
  from st show ?thesis unfolding RegCommit by (rule inv_RegCommit [OF inv])
next
  case (WsUpgrade tok)
  from st show ?thesis unfolding WsUpgrade by (rule inv_WsUpgrade [OF inv])
next
  case (Attach i)
  from st show ?thesis unfolding Attach by (rule inv_Attach [OF inv])
next
  case (PeerClose i)
  from st show ?thesis unfolding PeerClose by (rule inv_PeerClose [OF inv])
next
  case (Detach i)
  from st show ?thesis unfolding Detach by (rule inv_Detach [OF inv])
next
  case (Pump i)
  from st show ?thesis unfolding Pump by (rule inv_Pump [OF inv])
next
  case Tick
  from st show ?thesis unfolding Tick by (rule inv_Tick [OF inv])
next
  case (TimerFire t)
  from st show ?thesis unfolding TimerFire by (rule inv_TimerFire [OF inv])
next
  case (SendMessage tok to b)
  from st show ?thesis unfolding SendMessage by (rule inv_SendMessage [OF inv])
qed

lemma init_inv: "sys_inv init_sys"
  by (simp add: sys_inv_def init_sys_def world_wf_def clients_wf_def tokens_def)

theorem reachable_inv: "reachable s \<Longrightarrow> sys_inv s"
proof (induction rule: reachable.induct)
  case init
  show ?case by (rule init_inv)
next
  case (step s e s')
  then show ?case by (blast intro: step_inv)
qed

subsection \<open>Frame facts of single steps and runs\<close>

lemma run_reachable: "run es s = Some s' \<Longrightarrow> reachable s \<Longrightarrow> reachable s'"
proof (induction es arbitrary: s)
  case Nil
  then show ?case by simp
next
  case (Cons e es)
  then obtain s1 where "step e s = Some s1" and "run es s1 = Some s'"
    by (auto split: option.splits)
  with Cons show ?case by (blast intro: reachable.step)
qed

lemma clients_ws_upgrade [simp]: "clients (ws_upgrade tok s) = clients s"
  by (simp add: ws_upgrade_def new_chan_def)

lemma clients_pump: "pump i s = Some s' \<Longrightarrow> clients s' = clients s"
  by (auto simp: pump_def Let_def split: if_splits list.splits)

lemma step_tokens_same:
  assumes st: "step e s = Some s'"
    and "\<And>n tok. e \<noteq> RegCommit n tok" and "\<And>t. e \<noteq> TimerFire t"
  shows "tokens (clients s') = tokens (clients s)"
proof (cases e)
  case (Pump i)
  with st show ?thesis by (simp add: clients_pump)
next
  case (RegCheck n tok)
  with st show ?thesis by (auto split: if_splits)
qed (use assms in \<open>auto split: if_splits\<close>)

lemma step_keeps_inactive_timer:
  assumes st: "step e s = Some s'" and t: "t < length (timers s)"
    and na: "\<not> is_sleeping (tm_state (timers s ! t))"
  shows "t < length (timers s') \<and> timers s' ! t = timers s ! t"
proof (cases e)
  case (Attach i)
  with st t na show ?thesis by (auto simp: timers_attach_inactive split: if_splits)
next
  case (Detach i)
  with st show ?thesis using timers_detach_prefix [OF t] by (auto split: if_splits)
next
  case (TimerFire t')
  with st obtain d where "tm_state (timers s ! t') = Sleeping d"
    and s': "s' = timer_body (tm_token (timers s ! t'))
                    (s\<lparr>timers := (timers s)[t' := (timers s ! t')\<lparr>tm_state := Fired\<rparr>]\<rparr>)"
    by (auto simp: fire_timer_def split: if_splits timer_state.splits)
  with na have "t' \<noteq> t" by auto
  with t show ?thesis by (simp add: s' timer_body_def)
next
  case (Pump i)
  with st t show ?thesis by (auto simp: pump_def Let_def split: if_splits list.splits)
next
  case (WsUpgrade tok)
  with st t show ?thesis by (auto simp: ws_upgrade_def new_chan_def)
qed (use st t in \<open>auto split: if_splits\<close>)

end
