(* ===== verification/Routing.thy ===== *)
theory Routing
  imports Handlers
begin

text \<open>
  The route table of \<open>main\<close> in \<open>src/src/main.rs\<close>: five handler filters and the
  static file filter tried in the order of the \<open>.or\<close> chain, the extraction of the
  handlers' arguments from the request (path segments, method, JSON body, websocket
  headers) and the CORS wrapper. The filter combinators are warp library code and are
  modelled at their interface: a filter either extracts and replies, or rejects;
  \<open>.or\<close> tries its second filter when the first rejects and combines the two rejections;
  the server answers a final rejection with the status of the preferred one. Each
  handler runs as the sequential composition of its critical sections
  (\<open>Handlers\<close>); the interleavings between them are the subject of \<open>Server\<close>.
\<close>

subsection \<open>Requests\<close>

datatype meth = GET | POST | OPTIONS | OtherMethod string

text \<open>A JSON value is a string or something else (number, boolean, null, nested
  structure); the handlers' request types have string fields only. A body is a JSON
  object (its members in document order), a JSON array, or text that is not JSON or
  is a JSON scalar.\<close>

datatype jval = JStr string | JOther

datatype body = JObject "(string \<times> jval) list" | JArray "jval list" | BadJson

text \<open>\<open>Content-Type\<close>: absent, \<open>application/json\<close>, or another media type.\<close>

datatype ctype = NoContentType | AppJson | OtherType

text \<open>The parts of a request the filters read. \<open>rq_path\<close> is the path split at
  \<open>/\<close>; \<open>rq_upgrade\<close> says that the websocket handshake headers (\<open>Connection:
  upgrade\<close>, \<open>Upgrade: websocket\<close>, version 13, a key) are present; \<open>rq_origin\<close>,
  \<open>rq_acr_method\<close> and \<open>rq_acr_headers\<close> are the CORS headers \<open>Origin\<close>,
  \<open>Access-Control-Request-Method\<close> and \<open>Access-Control-Request-Headers\<close>.\<close>

record request =
  rq_method :: meth
  rq_path :: "string list"
  rq_ctype :: ctype
  rq_body :: body
  rq_upgrade :: bool
  rq_origin :: bool
  rq_acr_method :: "meth option"
  rq_acr_headers :: "string list"

subsection \<open>Responses and rejections\<close>

text \<open>The known rejections the filters of the route table raise: a method filter
  (\<open>warp::get()\<close>, \<open>warp::post()\<close>, and the one inside \<open>warp::ws()\<close>), the content
  type check and the deserialisation of \<open>warp::body::json()\<close>, and the handshake check
  of \<open>warp::ws()\<close>. \<open>warp::reject()\<close> and \<open>reject::not_found()\<close> are the empty
  rejection, written \<open>[]\<close>: a rejection is the list of known rejections combined.\<close>

datatype known = MethodNotAllowed | UnsupportedMediaType | BodyDeserializeError
  | MissingConnectionUpgrade

fun known_status :: "known \<Rightarrow> nat" where
  "known_status MethodNotAllowed = 405"
| "known_status UnsupportedMediaType = 415"
| "known_status BodyDeserializeError = 400"
| "known_status MissingConnectionUpgrade = 400"

text \<open>\<open>Rejections::preferred\<close> of two rejections: \<open>METHOD_NOT_ALLOWED\<close> loses
  against any other known rejection, otherwise the larger status wins and the first
  one wins a tie. (\<open>NOT_FOUND\<close>, the lowest, never reaches this comparison: combining
  with it keeps the other rejection.)\<close>

definition prefer_known :: "known \<Rightarrow> known \<Rightarrow> known" where
  "prefer_known a b =
     (if known_status b = 405 then a
      else if known_status a = 405 then b
      else if known_status a < known_status b then b else a)"

datatype payload =
    NoContent
  | TokenJson token
  | ErrorJson string
  | ClientJson string
  | ClientsJson "string list"
  | SwitchingProtocols token
  | StaticFile "string list"
  | RejectionText

type_synonym response = "nat \<times> payload"

text \<open>The reply to a rejection that reached the server: 404 for the empty rejection,
  else the status of the preferred known rejection (the \<open>.or\<close> chain nests to the
  left, so the preferred one is a left fold).\<close>

definition reject_response :: "known list \<Rightarrow> response" where
  "reject_response ks =
     (case ks of [] \<Rightarrow> (404, RejectionText) | k # ks' \<Rightarrow> (known_status (foldl prefer_known k ks'), RejectionText))"

type_synonym 'a route_result = "known list + (response \<times> 'a world_scheme)"

text \<open>\<open>Filter::or\<close>: the first filter's reply, else the second's, else both
  rejections combined.\<close>

definition or_route ::
  "(request \<Rightarrow> 'a world_scheme \<Rightarrow> 'a route_result) \<Rightarrow>
   (request \<Rightarrow> 'a world_scheme \<Rightarrow> 'a route_result) \<Rightarrow>
   request \<Rightarrow> 'a world_scheme \<Rightarrow> 'a route_result" where
  "or_route f g rq w =
     (case f rq w of
        Inr r \<Rightarrow> Inr r
      | Inl e1 \<Rightarrow> (case g rq w of Inr r \<Rightarrow> Inr r | Inl e2 \<Rightarrow> Inl (e1 @ e2)))"

subsection \<open>Extracting filters\<close>

text \<open>\<open>warp::path(seg)\<close>: the first segment is \<open>seg\<close>; no \<open>path::end()\<close> follows it
  in the route table, so later segments are not looked at.\<close>

definition path_is :: "string \<Rightarrow> request \<Rightarrow> bool" where
  "path_is seg rq = (case rq_path rq of s # _ \<Rightarrow> s = seg | [] \<Rightarrow> False)"

text \<open>\<open>warp::path::param::<String>()\<close> after one segment: the next segment, which must
  not be empty.\<close>

definition path_param :: "request \<Rightarrow> string option" where
  "path_param rq = (case rq_path rq of _ # p # _ \<Rightarrow> if p = [] then None else Some p | _ \<Rightarrow> None)"

text \<open>serde's derived \<open>Deserialize\<close> for a struct of \<open>String\<close> fields: from an object,
  each field must occur exactly once with a string value (a repeated field is an
  error, unknown members are ignored); from an array, the values of the fields in
  declaration order and nothing more.\<close>

definition obj_field :: "(string \<times> jval) list \<Rightarrow> string \<Rightarrow> string option" where
  "obj_field kvs k = (case filter (\<lambda>p. fst p = k) kvs of [(_, JStr v)] \<Rightarrow> Some v | _ \<Rightarrow> None)"

fun jstr :: "jval \<Rightarrow> string option" where
  "jstr (JStr v) = Some v"
| "jstr JOther = None"

definition decode_fields :: "string list \<Rightarrow> body \<Rightarrow> string list option" where
  "decode_fields ks b =
     (case b of
        JObject kvs \<Rightarrow> those (map (obj_field kvs) ks)
      | JArray vs \<Rightarrow> if length vs = length ks then those (map jstr vs) else None
      | BadJson \<Rightarrow> None)"

text \<open>\<open>warp::body::json()\<close>: a request without \<open>Content-Type\<close> is read as JSON, one
  with another media type is rejected with 415, a body that does not deserialise with
  400.\<close>

definition json_body :: "string list \<Rightarrow> request \<Rightarrow> known + string list" where
  "json_body ks rq =
     (if rq_ctype rq = OtherType then Inl UnsupportedMediaType
      else case decode_fields ks (rq_body rq) of
             None \<Rightarrow> Inl BodyDeserializeError
           | Some vs \<Rightarrow> Inr vs)"

text \<open>The method filters: \<open>warp::get()\<close>, \<open>warp::post()\<close>.\<close>

definition method_is :: "meth \<Rightarrow> request \<Rightarrow> bool" where
  "method_is m rq \<longleftrightarrow> rq_method rq = m"

subsection \<open>The routes\<close>

definition reg_response :: "reg_reply \<Rightarrow> response" where
  "reg_response r = (case r of RegOk tok \<Rightarrow> (200, TokenJson tok)
                             | NameTaken \<Rightarrow> (406, ErrorJson ''The name is already taken''))"

text \<open>\<open>registration_handler\<close>: \<open>path("register")\<close>, \<open>post()\<close>, \<open>body::json()\<close> of a
  \<open>RegistrationRequest\<close>, then \<open>handle_registration\<close>, which never rejects. \<open>tok\<close> is
  the token \<open>Uuid::new_v4\<close> produces for this request.\<close>

definition registration_route :: "token \<Rightarrow> request \<Rightarrow> 'a world_scheme \<Rightarrow> 'a route_result" where
  "registration_route tok rq w =
     (if \<not> path_is ''register'' rq then Inl []
      else if \<not> method_is POST rq then Inl [MethodNotAllowed]
      else case json_body [''name''] rq of
             Inl k \<Rightarrow> Inl [k]
           | Inr vs \<Rightarrow>
               (let (r, w') = handle_registration (hd vs) tok w in Inr (reg_response r, w')))"

text \<open>\<open>messages_handler\<close>: \<open>path("messages")\<close>, \<open>path::param()\<close>, \<open>ws()\<close> (a GET
  with the handshake headers), then \<open>ws_handler\<close>, which rejects an unknown token. The
  reply is 101 and \<open>ws.on_upgrade\<close> hands the socket to \<open>client_connected\<close>. That task
  writes the registry later, in its own critical sections, after the reply was sent:
  they are the \<open>Attach\<close> and \<open>Detach\<close> steps of \<open>Server\<close>, where an accepted upgrade is
  the step \<open>WsUpgrade\<close>. This function gives only the HTTP exchange, which reads the
  registry and does not write it.\<close>

definition messages_route :: "request \<Rightarrow> 'a world_scheme \<Rightarrow> 'a route_result" where
  "messages_route rq w =
     (if \<not> path_is ''messages'' rq then Inl []
      else case path_param rq of
             None \<Rightarrow> Inl []
           | Some tok \<Rightarrow>
               if \<not> method_is GET rq then Inl [MethodNotAllowed]
               else if \<not> rq_upgrade rq then Inl [MissingConnectionUpgrade]
               else if ws_handler tok w then Inr ((101, SwitchingProtocols tok), w)
               else Inl [])"

text \<open>\<open>send_message_handler\<close>: \<open>path("send_message")\<close>, \<open>post()\<close>,
  \<open>body::json()\<close> of a \<open>MessageRequest\<close> (fields \<open>token\<close>, \<open>body\<close>, \<open>to\<close> in this
  order), then \<open>handle_send_message\<close>, whose three failures are \<open>reject()\<close> or
  \<open>reject::not_found()\<close>.\<close>

definition send_route :: "request \<Rightarrow> 'a world_scheme \<Rightarrow> 'a route_result" where
  "send_route rq w =
     (if \<not> path_is ''send_message'' rq then Inl []
      else if \<not> method_is POST rq then Inl [MethodNotAllowed]
      else case json_body [''token'', ''body'', ''to''] rq of
             Inl k \<Rightarrow> Inl [k]
           | Inr vs \<Rightarrow>
               (case handle_send_message (vs ! 0) (vs ! 2) (vs ! 1) w of
                  (Sent, w') \<Rightarrow> Inr ((200, NoContent), w')
                | _ \<Rightarrow> Inl []))"

text \<open>\<open>status_handler\<close>: \<open>path("status")\<close>, \<open>get()\<close>, \<open>path::param()\<close>, then
  \<open>handle_status\<close>, which rejects an unknown token.\<close>

definition status_route :: "request \<Rightarrow> 'a world_scheme \<Rightarrow> 'a route_result" where
  "status_route rq w =
     (if \<not> path_is ''status'' rq then Inl []
      else if \<not> method_is GET rq then Inl [MethodNotAllowed]
      else case path_param rq of
             None \<Rightarrow> Inl []
           | Some tok \<Rightarrow>
               (case handle_status tok w of
                  Some j \<Rightarrow> Inr ((200, ClientJson j), w)
                | None \<Rightarrow> Inl []))"

text \<open>\<open>list_clients_handler\<close>: \<open>path("clients")\<close>, \<open>get()\<close>, then
  \<open>handle_list_clients\<close>.\<close>

definition list_route :: "request \<Rightarrow> 'a world_scheme \<Rightarrow> 'a route_result" where
  "list_route rq w =
     (if \<not> path_is ''clients'' rq then Inl []
      else if \<not> method_is GET rq then Inl [MethodNotAllowed]
      else Inr ((200, ClientsJson (handle_list_clients w)), w))"

text \<open>\<open>serve_static\<close>: \<open>get()\<close>, then \<open>fs::dir("static/")\<close>, which serves the file
  the whole path names and rejects with \<open>not_found\<close> when there is none. The contents
  of \<open>static/\<close> are a parameter: \<open>files\<close> lists the paths that name a file there.\<close>

definition static_route :: "string list list \<Rightarrow> request \<Rightarrow> 'a world_scheme \<Rightarrow> 'a route_result" where
  "static_route files rq w =
     (if \<not> method_is GET rq then Inl [MethodNotAllowed]
      else if rq_path rq \<in> set files then Inr ((200, StaticFile (rq_path rq)), w)
      else Inl [])"

text \<open>\<open>routes\<close> in \<open>main\<close>, before the CORS wrapper.\<close>

definition routes ::
  "token \<Rightarrow> string list list \<Rightarrow> request \<Rightarrow> 'a world_scheme \<Rightarrow> 'a route_result" where
  "routes tok files =
     or_route (or_route (or_route (or_route (or_route (registration_route tok) messages_route)
       send_route) status_route) list_route) (static_route files)"

subsection \<open>CORS and the server\<close>

text \<open>\<open>warp::cors().allow_any_origin().allow_header(CONTENT_TYPE)
  .allow_methods([GET, POST])\<close>: a request without \<open>Origin\<close> is not a CORS request; an
  \<open>OPTIONS\<close> request with \<open>Origin\<close> is a preflight, answered by the wrapper itself
  when the requested method is GET or POST and every requested header is
  \<open>content-type\<close> (header names are case-insensitive), and forbidden (403) otherwise;
  any other request with an origin passes, since every origin is allowed.\<close>

datatype cors_verdict = NotCors | SimpleCors | Preflight | CorsForbidden

definition cors_check :: "request \<Rightarrow> cors_verdict" where
  "cors_check rq =
     (if \<not> rq_origin rq then NotCors
      else if rq_method rq = OPTIONS then
        (if rq_acr_method rq \<in> {Some GET, Some POST} \<and>
            list_all (\<lambda>h. to_lowercase h = ''content-type'') (rq_acr_headers rq)
         then Preflight else CorsForbidden)
      else SimpleCors)"

text \<open>\<open>warp::serve(routes)\<close> on one request: the response and the new shared state.\<close>

definition serve ::
  "token \<Rightarrow> string list list \<Rightarrow> request \<Rightarrow> 'a world_scheme \<Rightarrow> response \<times> 'a world_scheme" where
  "serve tok files rq w =
     (case cors_check rq of
        CorsForbidden \<Rightarrow> ((403, RejectionText), w)
      | Preflight \<Rightarrow> ((200, NoContent), w)
      | _ \<Rightarrow> (case routes tok files rq w of Inl ks \<Rightarrow> (reject_response ks, w) | Inr r \<Rightarrow> r))"

text \<open>Requests as a browser or \<open>curl\<close> sends them, for the examples.\<close>

definition plain :: "meth \<Rightarrow> string list \<Rightarrow> request" where
  "plain m p = \<lparr>rq_method = m, rq_path = p, rq_ctype = NoContentType, rq_body = BadJson,
                rq_upgrade = False, rq_origin = False, rq_acr_method = None, rq_acr_headers = []\<rparr>"

definition post_json :: "string list \<Rightarrow> (string \<times> string) list \<Rightarrow> request" where
  "post_json p kvs = (plain POST p)\<lparr>rq_ctype := AppJson, rq_body := JObject (map (\<lambda>(k, v). (k, JStr v)) kvs)\<rparr>"

lemmas [handler_defs] = registration_route_def messages_route_def send_route_def status_route_def
  list_route_def static_route_def

subsection \<open>Filter lemmas\<close>

lemma path_is_unique: "path_is a rq \<Longrightarrow> path_is b rq \<longleftrightarrow> b = a"
  by (auto simp: path_is_def split: list.splits)

lemma or_route_Inr [simp]: "f rq w = Inr r \<Longrightarrow> or_route f g rq w = Inr r"
  by (simp add: or_route_def)

lemma or_route_Inl [simp]:
  "f rq w = Inl e \<Longrightarrow> or_route f g rq w = (case g rq w of Inr r \<Rightarrow> Inr r | Inl e2 \<Rightarrow> Inl (e @ e2))"
  by (simp add: or_route_def)

lemma other_path_routes [simp]:
  "\<not> path_is ''register'' rq \<Longrightarrow> registration_route tok rq w = Inl []"
  "\<not> path_is ''messages'' rq \<Longrightarrow> messages_route rq w = Inl []"
  "\<not> path_is ''send_message'' rq \<Longrightarrow> send_route rq w = Inl []"
  "\<not> path_is ''status'' rq \<Longrightarrow> status_route rq w = Inl []"
  "\<not> path_is ''clients'' rq \<Longrightarrow> list_route rq w = Inl []"
  by (simp_all add: handler_defs)

lemma static_not_get [simp]: "\<not> method_is GET rq \<Longrightarrow> static_route files rq w = Inl [MethodNotAllowed]"
  by (simp add: static_route_def)

lemma serve_no_preflight:
  "rq_method rq \<noteq> OPTIONS \<Longrightarrow>
   serve tok files rq w = (case routes tok files rq w of Inl ks \<Rightarrow> (reject_response ks, w) | Inr r \<Rightarrow> r)"
  by (simp add: serve_def cors_check_def)

lemma serve_get_post:
  "method_is GET rq \<or> method_is POST rq \<Longrightarrow>
   serve tok files rq w = (case routes tok files rq w of Inl ks \<Rightarrow> (reject_response ks, w) | Inr r \<Rightarrow> r)"
  by (auto simp: method_is_def intro!: serve_no_preflight)

lemma or_route_InrD: "or_route f g rq w = Inr x \<Longrightarrow> f rq w = Inr x \<or> g rq w = Inr x"
  by (auto simp: or_route_def split: sum.splits)

subsection \<open>Which route answers\<close>

text \<open>A reply that changes the state comes from the registration or the send route;
  every other route replies 101 or 200 and leaves the state as it is.\<close>

lemma registration_route_InrD:
  "registration_route tok rq w = Inr (r, w') \<Longrightarrow>
   method_is POST rq \<and> path_is ''register'' rq \<and>
   (\<exists>n x. handle_registration n tok w = (x, w') \<and> r = reg_response x)"
  by (auto simp: registration_route_def split: if_splits sum.splits prod.splits)

lemma send_route_InrD:
  "send_route rq w = Inr (r, w') \<Longrightarrow>
   method_is POST rq \<and> path_is ''send_message'' rq \<and>
   (\<exists>t x b. handle_send_message t x b w = (Sent, w') \<and> r = (200, NoContent))"
  by (auto simp: send_route_def split: if_splits sum.splits prod.splits send_outcome.splits)

lemma read_routes_InrD:
  "messages_route rq w = Inr (r, w') \<Longrightarrow> w' = w \<and> fst r = 101"
  "status_route rq w = Inr (r, w') \<Longrightarrow> w' = w \<and> fst r = 200"
  "list_route rq w = Inr (r, w') \<Longrightarrow> w' = w \<and> fst r = 200"
  "static_route files rq w = Inr (r, w') \<Longrightarrow> w' = w \<and> fst r = 200"
  by (auto simp: handler_defs split: if_splits option.splits)

lemma routes_InrD:
  assumes "routes tok files rq w = Inr (r, w')"
  shows "(method_is POST rq \<and> path_is ''register'' rq \<and>
           (\<exists>n x. handle_registration n tok w = (x, w') \<and> r = reg_response x)) \<or>
         (method_is POST rq \<and> path_is ''send_message'' rq \<and>
           (\<exists>t x b. handle_send_message t x b w = (Sent, w') \<and> r = (200, NoContent))) \<or>
         (w' = w \<and> fst r \<in> {101, 200})"
  using assms unfolding routes_def
  by (auto dest!: or_route_InrD registration_route_InrD send_route_InrD read_routes_InrD)

lemma known_status_range: "known_status k \<in> {400, 405, 415}"
  by (cases k) simp_all

lemma reject_response_status: "fst (reject_response ks) \<in> {400, 404, 405, 415}"
proof (cases ks)
  case (Cons k ks')
  then show ?thesis
    using known_status_range [of "foldl prefer_known k ks'"] by (auto simp: reject_response_def)
qed (simp add: reject_response_def)

text \<open>The requests of one endpoint are rejected by the filters of the others on
  their first segment; POST requests are rejected by \<open>serve_static\<close> with 405.\<close>

lemma routes_register:
  assumes "path_is ''register'' rq" and "method_is POST rq"
  shows "routes tok files rq w =
           (case registration_route tok rq w of Inr r \<Rightarrow> Inr r | Inl e \<Rightarrow> Inl (e @ [MethodNotAllowed]))"
proof -
  have "\<not> path_is ''messages'' rq \<and> \<not> path_is ''send_message'' rq \<and> \<not> path_is ''status'' rq \<and>
        \<not> path_is ''clients'' rq" and "\<not> method_is GET rq"
    using assms by (simp_all add: path_is_unique method_is_def)
  then show ?thesis
    by (simp add: routes_def split: sum.splits)
qed

lemma serve_registration:
  assumes "path_is ''register'' rq" and "method_is POST rq" and "json_body [''name''] rq = Inr [n]"
  shows "serve tok files rq w = (let (r, w') = handle_registration n tok w in (reg_response r, w'))"
proof -
  from assms show ?thesis
    by (simp add: serve_get_post routes_register registration_route_def split: prod.splits)
qed

lemma serve_status:
  assumes "path_is ''status'' rq" and "method_is GET rq" and "path_param rq = Some t"
  shows "serve tok files rq w =
           (case handle_status t w of
              Some j \<Rightarrow> ((200, ClientJson j), w)
            | None \<Rightarrow> if rq_path rq \<in> set files then ((200, StaticFile (rq_path rq)), w)
                      else ((404, RejectionText), w))"
proof -
  have "\<not> path_is ''register'' rq \<and> \<not> path_is ''messages'' rq \<and>
                 \<not> path_is ''send_message'' rq \<and> \<not> path_is ''clients'' rq"
    using assms(1) by (simp add: path_is_unique)
  then show ?thesis
    using assms
    by (auto simp: serve_get_post routes_def status_route_def static_route_def reject_response_def
             split: option.splits)
qed

lemma reg_response_ok: "reg_response r = (200, p) \<Longrightarrow> r = RegOk (case p of TokenJson t \<Rightarrow> t)"
  by (auto simp: reg_response_def split: reg_reply.splits)

subsection \<open>The server's answers\<close>

text \<open>C7: A well-formed POST to /send_message is answered 200 with the handler's state when the message is sent; every rejection of handle_send_message (unknown recipient, unknown sender, recipient without channel) reaches the client as 405 Method Not Allowed, because the GET filter of serve_static rejects it with 405 and warp prefers that to not_found; the state is left unchanged.\<close>

theorem send_over_http:
  assumes "path_is ''send_message'' rq" and "method_is POST rq"
    and "json_body [''token'', ''body'', ''to''] rq = Inr [t, b, x]"
  shows "serve tok files rq w =
           (case handle_send_message t x b w of
              (Sent, w') \<Rightarrow> ((200, NoContent), w')
            | _ \<Rightarrow> ((405, RejectionText), w))"
proof -
  have others: "\<not> path_is ''register'' rq \<and> \<not> path_is ''messages'' rq \<and> \<not> path_is ''status'' rq \<and>
                \<not> path_is ''clients'' rq"
    using assms(1) by (simp add: path_is_unique)
  have get: "\<not> method_is GET rq"
    using assms(2) by (simp add: method_is_def)
  have "send_route rq w =
          (case handle_send_message t x b w of (Sent, w') \<Rightarrow> Inr ((200, NoContent), w') | _ \<Rightarrow> Inl [])"
    using assms by (simp add: send_route_def)
  with others get show ?thesis
    by (auto simp: serve_get_post [OF disjI2 [OF assms(2)]] routes_def reject_response_def prefer_known_def
             split: prod.splits send_outcome.splits)
qed

text \<open>Every response of the server has one of the statuses 101, 200, 400, 403, 404, 405, 406 or 415.\<close>

theorem serve_status_range:
  "fst (fst (serve tok files rq w)) \<in> {101, 200, 400, 403, 404, 405, 406, 415}"
  using reject_response_status
  by (auto simp: serve_def reg_response_def split: cors_verdict.splits sum.splits reg_reply.splits
           dest!: routes_InrD)

text \<open>C19: The route table does not end its paths: a POST to /register/anything is served exactly as a POST to /register.\<close>

theorem register_path_unanchored:
  assumes "method_is POST rq" and "rq_path rq = ''register'' # extra"
  shows "serve tok files rq w = serve tok files (rq\<lparr>rq_path := [''register'']\<rparr>) w"
proof -
  let ?rq' = "rq\<lparr>rq_path := [''register'']\<rparr>"
  have p: "path_is ''register'' rq" "path_is ''register'' ?rq'" and m: "method_is POST ?rq'"
    using assms by (simp_all add: path_is_def method_is_def)
  have "registration_route tok rq w = registration_route tok ?rq' w"
    using p by (simp add: registration_route_def json_body_def method_is_def)
  then have "routes tok files rq w = routes tok files ?rq' w"
    by (simp only: routes_register [OF p(1) assms(1)] routes_register [OF p(2) m])
  then show ?thesis
    using assms(1) m by (simp add: serve_get_post)
qed

text \<open>C18: Over HTTP, a registration that is answered 200 with a token t (the fresh, non-empty token drawn for it) makes GET /status/t answer 200 with the registered display name.\<close>

theorem http_register_then_status:
  assumes "clients_wf (clients w)" and "tok \<notin> set (tokens (clients w))" and "tok \<noteq> []"
    and "serve tok files (post_json [''register''] [(''name'', n)]) w = ((200, TokenJson t), w')"
  shows "fst (serve tok' files (plain GET [''status'', t]) w') = (200, ClientJson n)"
proof -
  let ?rq = "post_json [''register''] [(''name'', n)]"
  have "path_is ''register'' ?rq" "method_is POST ?rq" "json_body [''name''] ?rq = Inr [n]"
    by (simp_all add: post_json_def plain_def path_is_def method_is_def json_body_def
        decode_fields_def obj_field_def)
  from assms(4) [unfolded serve_registration [OF this]]
  have reg: "handle_registration n tok w = (RegOk t, w')"
    by (auto dest: reg_response_ok split: prod.splits)
  then have "t = tok" and found: "find_by_token (clients w') tok = Some (to_lowercase n, new_client n tok)"
    using registration_effect [OF assms(1,2)] by blast+
  then have "handle_status t w' = Some n"
    by (simp add: handle_status_def client_json_def new_client_def)
  moreover have "path_param (plain GET [''status'', t]) = Some t"
    using assms(3) \<open>t = tok\<close> by (simp add: path_param_def plain_def)
  ultimately show ?thesis
    by (simp add: serve_status path_is_def method_is_def plain_def)
qed

subsection \<open>Witnesses\<close>

theorem send_over_http_witness:
  "serve ''t9'' [] (post_json [''send_message''] [(''token'', ''tA''), (''body'', ''hi''), (''to'', ''Carol'')])
     demo_world = ((405, RejectionText), demo_world) \<and>
   serve ''t9'' [] (post_json [''send_message''] [(''token'', ''tA''), (''body'', ''hi''), (''to'', ''BOB'')])
     demo_world = ((200, NoContent), demo_world\<lparr>chans := [[\<lparr>msg_from = ''Alice'', msg_body = ''hi''\<rparr>]]\<rparr>)"
proof -
  let ?rq = "\<lambda>x. post_json [''send_message''] [(''token'', ''tA''), (''body'', ''hi''), (''to'', x)]"
  have rq: "path_is ''send_message'' (?rq x)" "method_is POST (?rq x)"
    "json_body [''token'', ''body'', ''to''] (?rq x) = Inr [''tA'', ''hi'', x]" for x
    by (simp_all add: post_json_def plain_def path_is_def method_is_def json_body_def
        decode_fields_def obj_field_def)
  have "handle_send_message ''tA'' ''Carol'' ''hi'' demo_world = (RecipientNotFound, demo_world)"
    by code_simp
  moreover have "handle_send_message ''tA'' ''BOB'' ''hi'' demo_world =
      (Sent, demo_world\<lparr>chans := [[\<lparr>msg_from = ''Alice'', msg_body = ''hi''\<rparr>]]\<rparr>)"
    by code_simp
  ultimately show ?thesis
    using send_over_http [OF rq, where tok = "''t9''" and files = "[]" and w = demo_world] by simp
qed

theorem register_path_unanchored_witness:
  "method_is POST (post_json [''register'', ''x''] [(''name'', ''Carol'')]) \<and>
   rq_path (post_json [''register'', ''x''] [(''name'', ''Carol'')]) = ''register'' # [''x''] \<and>
   fst (serve ''t9'' [] (post_json [''register'', ''x''] [(''name'', ''Carol'')]) demo_world) =
     (200, TokenJson ''t9'')"
proof -
  let ?rq = "post_json [''register'', ''x''] [(''name'', ''Carol'')]"
  have m: "method_is POST ?rq" and p: "rq_path ?rq = ''register'' # [''x'']"
    by (simp_all add: method_is_def post_json_def plain_def)
  have "fst (serve ''t9'' [] (?rq\<lparr>rq_path := [''register'']\<rparr>) demo_world) = (200, TokenJson ''t9'')"
    by code_simp
  then show ?thesis
    using m p register_path_unanchored [OF m p, where tok = "''t9''" and files = "[]" and w = demo_world] by simp
qed

theorem http_register_then_status_witness:
  "clients_wf (clients demo_world) \<and> ''t9'' \<notin> set (tokens (clients demo_world)) \<and>
   fst (serve ''t9'' [] (post_json [''register''] [(''name'', ''Carol'')]) demo_world) = (200, TokenJson ''t9'') \<and>
   fst (serve ''t10'' [] (plain GET [''status'', ''t9''])
          (snd (serve ''t9'' [] (post_json [''register''] [(''name'', ''Carol'')]) demo_world))) =
     (200, ClientJson ''Carol'')"
proof -
  let ?rq = "post_json [''register''] [(''name'', ''Carol'')]"
  have wf: "clients_wf (clients demo_world)"
    using demo_world_wf by (simp add: world_wf_def)
  have fresh: "''t9'' \<notin> set (tokens (clients demo_world))"
    by (simp add: demo_world_def demo_clients_def tokens_def)
  have ok: "fst (serve ''t9'' [] ?rq demo_world) = (200, TokenJson ''t9'')"
    by code_simp
  then have "serve ''t9'' [] ?rq demo_world = ((200, TokenJson ''t9''), snd (serve ''t9'' [] ?rq demo_world))"
    by (metis prod.collapse)
  from http_register_then_status [OF wf fresh _ this]
  show ?thesis
    using wf fresh ok by simp
qed

end
