(* ===== verification/Registry_Spec.thy ===== *)
theory Registry_Spec
  imports Server
begin

text \<open>
  The registry of the specification (section 4.1) as an abstract map from the
  normalised name to the display name and the credential, and its operations
  \<open>register\<close> and \<open>remove\<close>, with \<open>findByCredential\<close> as a relation on it. The
  abstraction \<open>abs_reg\<close> forgets the association list's order and the per-client
  handles (timer and sender). The lemmas show that each handler of \<open>Handlers\<close>
  implements its abstract operation (\<open>abs (f x) = g (abs x)\<close>), and that every step of
  the server changes the abstract registry only by an insertion or a removal.
\<close>

type_synonym areg = "string \<rightharpoonup> string \<times> token"

definition abs_reg :: "clients \<Rightarrow> areg" where
  "abs_reg r k = map_option (\<lambda>c. (name c, token c)) (map_of r k)"

text \<open>\<open>register(name)\<close>: \<open>Conflict\<close> when the normalised name is taken, else the new
  credential, the entry stored under the normalised name.\<close>

definition spec_register :: "string \<Rightarrow> token \<Rightarrow> areg \<Rightarrow> reg_reply \<times> areg" where
  "spec_register n tok A =
     (if A (to_lowercase n) \<noteq> None then (NameTaken, A)
      else (RegOk tok, A(to_lowercase n \<mapsto> (n, tok))))"

text \<open>\<open>remove(credential)\<close>: delete the entry with the credential, if any.\<close>

definition spec_remove :: "token \<Rightarrow> areg \<Rightarrow> areg" where
  "spec_remove tok A k = (case A k of Some (n, t) \<Rightarrow> if t = tok then None else Some (n, t) | None \<Rightarrow> None)"

subsection \<open>The abstraction of the concrete operations\<close>

lemma abs_reg_update: "abs_reg (AList.update k c r) = (abs_reg r)(k \<mapsto> (name c, token c))"
  by (simp add: abs_reg_def fun_eq_iff update_conv')

lemma abs_reg_None: "abs_reg r k = None \<longleftrightarrow> map_of r k = None"
  by (simp add: abs_reg_def)

lemma abs_reg_retain:
  "distinct (map fst r) \<Longrightarrow> abs_reg (retain_token r tok) = spec_remove tok (abs_reg r)"
  by (auto simp: abs_reg_def spec_remove_def retain_token_def has_token_def fun_eq_iff
           map_of_filter_fst split: option.splits)

lemma abs_reg_map_first:
  "(\<And>c. name (f c) = name c) \<Longrightarrow> (\<And>c. token (f c) = token c) \<Longrightarrow>
   abs_reg (map_first P (\<lambda>(k, c). (k, f c)) r) = abs_reg r"
proof (induction r)
  case Nil
  then show ?case by simp
next
  case (Cons e r)
  then show ?case
    by (cases e) (auto simp: abs_reg_def fun_eq_iff)
qed

lemma abs_reg_update_by_token:
  "(\<And>c. name (f c) = name c) \<Longrightarrow> (\<And>c. token (f c) = token c) \<Longrightarrow>
   abs_reg (update_by_token r tok f) = abs_reg r"
  by (simp add: update_by_token_def abs_reg_map_first)

lemma abs_reg_attach [simp]: "abs_reg (clients (cc_attach tok ch w)) = abs_reg (clients w)"
  by (simp add: cc_attach_def abs_reg_update_by_token split: option.splits prod.splits)

lemma abs_reg_detach [simp]: "abs_reg (clients (cc_detach tok w)) = abs_reg (clients w)"
  by (simp add: cc_detach_def spawn_timer_def abs_reg_update_by_token split: option.splits prod.splits)

lemma step_abs_reg_cases:
  assumes "step e s = Some s'"
  shows "abs_reg (clients s') = abs_reg (clients s) \<or>
         (\<exists>n tok. e = RegCommit n tok \<and> clients s' = reg_insert n tok (clients s)) \<or>
         (\<exists>t. e = TimerFire t \<and> clients s' = retain_token (clients s) (tm_token (timers s ! t)))"
proof (cases e)
  case (Pump i)
  with assms show ?thesis by (simp add: clients_pump)
next
  case (TimerFire t)
  with assms show ?thesis
    by (auto simp: fire_timer_def timer_body_def split: if_splits timer_state.splits)
qed (use assms in \<open>auto split: if_splits\<close>)

subsection \<open>Refinement\<close>

text \<open>C20: handle_registration implements the specification's register: its reply and the abstraction of the registry it leaves are those of spec_register on the abstract registry.\<close>

theorem registration_refines:
  "map_prod id (abs_reg \<circ> clients) (handle_registration n tok w) =
   spec_register n tok (abs_reg (clients w))"
  by (simp add: handle_registration_def spec_register_def reg_check_def contains_key_def
      reg_insert_def hm_insert_def abs_reg_None abs_reg_update new_client_def)

text \<open>C22: The body of the eviction task implements the specification's remove(credential) on a registry with unique keys.\<close>

theorem timer_body_refines:
  "clients_wf (clients w) \<Longrightarrow>
   abs_reg (clients (timer_body tok w)) = spec_remove tok (abs_reg (clients w))"
  by (simp add: timer_body_def clients_wf_def abs_reg_retain)

text \<open>C23: Under the registry invariant, handle_status implements findByCredential: it answers a name j exactly when the abstract registry holds an entry with display name j and that credential.\<close>

theorem status_refines_find_by_credential:
  "clients_wf (clients w) \<Longrightarrow>
   handle_status tok w = Some j \<longleftrightarrow> (\<exists>k. abs_reg (clients w) k = Some (j, tok))"
  by (auto simp: handle_status_def client_json_def abs_reg_def find_by_token_wf clients_wf_def
           dest: map_of_SomeD intro: exI [where x = "fst _"])

text \<open>C21: Every step of the running server changes the abstract registry in one of three ways only: not at all, by an unconditional insertion of the pending registration (RegCommit, without the name check of register), or by the removal of one credential (an eviction task's body).\<close>

theorem step_refines_registry:
  assumes "reachable s" and "step e s = Some s'"
  shows "abs_reg (clients s') = abs_reg (clients s) \<or>
         (\<exists>n tok. e = RegCommit n tok \<and>
            abs_reg (clients s') = (abs_reg (clients s))(to_lowercase n \<mapsto> (n, tok))) \<or>
         (\<exists>t. e = TimerFire t \<and>
            abs_reg (clients s') = spec_remove (tm_token (timers s ! t)) (abs_reg (clients s)))"
proof -
  have "distinct (map fst (clients s))"
    using reachable_inv [OF assms(1)] by (simp add: sys_inv_def world_wf_def clients_wf_def)
  then show ?thesis
    using step_abs_reg_cases [OF assms(2)]
    by (auto simp: reg_insert_def hm_insert_def abs_reg_update new_client_def abs_reg_retain)
qed

subsection \<open>Witnesses\<close>

theorem timer_body_refines_witness:
  "clients_wf (clients demo_world) \<and>
   abs_reg (clients (timer_body ''tB'' demo_world)) = spec_remove ''tB'' (abs_reg (clients demo_world)) \<and>
   abs_reg (clients (timer_body ''tB'' demo_world)) ''bob'' = None"
proof -
  have wf: "clients_wf (clients demo_world)"
    using demo_world_wf by (simp add: world_wf_def)
  have "spec_remove ''tB'' (abs_reg (clients demo_world)) ''bob'' = None"
    by (simp add: spec_remove_def abs_reg_def demo_world_def demo_clients_def)
  then show ?thesis
    using wf timer_body_refines [OF wf, of "''tB''"] by simp
qed

theorem status_refines_find_by_credential_witness:
  "clients_wf (clients demo_world) \<and> abs_reg (clients demo_world) ''alice'' = Some (''Alice'', ''tA'') \<and>
   handle_status ''tA'' demo_world = Some ''Alice''"
proof -
  have wf: "clients_wf (clients demo_world)"
    using demo_world_wf by (simp add: world_wf_def)
  have a: "abs_reg (clients demo_world) ''alice'' = Some (''Alice'', ''tA'')"
    by (simp add: abs_reg_def demo_world_def demo_clients_def)
  then show ?thesis
    using wf status_refines_find_by_credential [OF wf, of "''tA''" "''Alice''"] by blast
qed

theorem step_refines_registry_witness:
  "reachable (init_sys\<lparr>pending := [(''Alice'', ''t1'')], issued := [''t1'']\<rparr>) \<and>
   step (RegCommit ''Alice'' ''t1'') (init_sys\<lparr>pending := [(''Alice'', ''t1'')], issued := [''t1'']\<rparr>) =
     Some (init_sys\<lparr>clients := [(''alice'', new_client ''Alice'' ''t1'')], issued := [''t1''],
                    replies := [RegOk ''t1'']\<rparr>) \<and>
   abs_reg [(''alice'', new_client ''Alice'' ''t1'')] \<noteq> abs_reg (clients init_sys) \<and>
   abs_reg [(''alice'', new_client ''Alice'' ''t1'')] =
     (abs_reg (clients init_sys))(to_lowercase ''Alice'' \<mapsto> (''Alice'', ''t1''))"
proof -
  let ?s1 = "init_sys\<lparr>pending := [(''Alice'', ''t1'')], issued := [''t1'']\<rparr>"
  let ?s2 = "init_sys\<lparr>clients := [(''alice'', new_client ''Alice'' ''t1'')], issued := [''t1''],
                       replies := [RegOk ''t1'']\<rparr>"
  have lc: "to_lowercase ''Alice'' = ''alice''" by code_simp
  have "step (RegCheck ''Alice'' ''t1'') init_sys = Some ?s1"
    by (simp add: init_sys_def reg_check_def contains_key_def)
  then have r1: "reachable ?s1"
    by (rule reachable.step [OF reachable.init])
  have st: "step (RegCommit ''Alice'' ''t1'') ?s1 = Some ?s2"
    by (simp add: init_sys_def reg_insert_def hm_insert_def lc)
  have ne: "abs_reg (clients ?s2) \<noteq> abs_reg (clients ?s1)"
    by (auto simp: abs_reg_def fun_eq_iff init_sys_def)
  have "abs_reg (clients ?s2) = (abs_reg (clients ?s1))(to_lowercase ''Alice'' \<mapsto> (''Alice'', ''t1''))"
    using step_refines_registry [OF r1 st] ne by auto
  with r1 st ne show ?thesis by simp
qed

end
