(* ===== verification/Progress.thy ===== *)
theory Progress
  imports Server
begin

text \<open>
  Termination and progress of the server's background tasks. The outbound task of a
  connection (\<open>while let Some(message) = client_rx.recv().await\<close>) is a loop that
  may wait forever; each \<open>Pump\<close> step is one iteration. The lemmas show that a queue
  of n messages is drained by exactly n iterations, in order, after which the loop
  waits (\<open>pump\<close> is not enabled); that every sleeping eviction task's deadline is
  at most \<open>grace_period\<close> seconds ahead of the clock; and hence that such a task can
  run its body after at most \<open>grace_period\<close> ticks.
\<close>

definition deadlines :: "timer_task list \<Rightarrow> nat set" where
  "deadlines ts = {d. Sleeping d \<in> tm_state ` set ts}"

text \<open>A schedule for the examples: Bob registers, connects, and his socket closes,
  which leaves the eviction task 0 sleeping until second 10.\<close>

definition bob_in_grace :: "event list" where
  "bob_in_grace = [RegCheck ''Bob'' ''tB'', RegCommit ''Bob'' ''tB'', WsUpgrade ''tB'', Attach 0,
                   PeerClose 0, Detach 0]"

subsection \<open>The outbound pump\<close>

lemma pump_drain:
  assumes "i < length (conns s)" and "c_chan (conns s ! i) = ch" and "ch < length (chans s)"
    and "chans s ! ch = q"
  shows "run (replicate (length q) (Pump i)) s =
           Some (s\<lparr>chans := (chans s)[ch := []],
                   conns := (if c_phase (conns s ! i) = Open
                             then (conns s)[i := (conns s ! i)\<lparr>c_frames := c_frames (conns s ! i) @ q\<rparr>]
                             else conns s)\<rparr>)"
  using assms
proof (induction q arbitrary: s)
  case Nil
  then have "(chans s)[ch := []] = chans s" by (metis list_update_id)
  then show ?case by simp
next
  case (Cons m q)
  let ?c = "conns s ! i"
  let ?s1 = "s\<lparr>chans := (chans s)[ch := q],
                conns := (if c_phase ?c = Open then (conns s)[i := ?c\<lparr>c_frames := c_frames ?c @ [m]\<rparr>]
                          else conns s)\<rparr>"
  have p: "pump i s = Some ?s1"
    using Cons.prems by (simp add: pump_def Let_def)
  have "run (replicate (length q) (Pump i)) ?s1 =
          Some (?s1\<lparr>chans := (chans ?s1)[ch := []],
                    conns := (if c_phase (conns ?s1 ! i) = Open
                              then (conns ?s1)[i := (conns ?s1 ! i)\<lparr>c_frames := c_frames (conns ?s1 ! i) @ q\<rparr>]
                              else conns ?s1)\<rparr>)"
    using Cons.prems by (intro Cons.IH) auto
  with p Cons.prems show ?case by auto
qed

lemma pump_empty: "chans s ! c_chan (conns s ! i) = [] \<Longrightarrow> pump i s = None"
  by (simp add: pump_def Let_def)

subsection \<open>Eviction deadlines\<close>

lemma run_append: "run (xs @ ys) s = (case run xs s of None \<Rightarrow> None | Some s' \<Rightarrow> run ys s')"
  by (induction xs arbitrary: s) (auto split: option.splits)

lemma run_ticks: "run (replicate n Tick) s = Some (s\<lparr>now := now s + n\<rparr>)"
  by (induction n arbitrary: s) simp_all

lemma deadlines_abort: "deadlines (abort_task t ts) \<subseteq> deadlines ts"
proof
  fix d assume "d \<in> deadlines (abort_task t ts)"
  then obtain i where i: "i < length ts" and "tm_state (abort_task t ts ! i) = Sleeping d"
    by (auto simp: deadlines_def in_set_conv_nth)
  then have "tm_state (ts ! i) = Sleeping d"
    by (auto simp: abort_task_nth split: if_splits)
  with i show "d \<in> deadlines ts"
    by (auto simp: deadlines_def intro: rev_image_eqI [OF nth_mem])
qed

lemma deadlines_fired: "deadlines (ts[t := (ts ! t)\<lparr>tm_state := Fired\<rparr>]) \<subseteq> deadlines ts"
  by (auto simp: deadlines_def dest: subsetD [OF set_update_subset_insert])

lemma deadlines_attach: "deadlines (timers (cc_attach tok ch w)) \<subseteq> deadlines (timers w)"
  using deadlines_abort by (auto simp: cc_attach_def split: option.splits prod.splits)

lemma deadlines_detach:
  "deadlines (timers (cc_detach tok w)) \<subseteq> deadlines (timers w) \<union> {now w + grace_period}"
  by (auto simp: cc_detach_def spawn_timer_def deadlines_def split: option.splits prod.splits)

lemma step_deadlines:
  assumes "step e s = Some s'"
  shows "deadlines (timers s') \<subseteq> deadlines (timers s) \<union> {now s + grace_period} \<and> now s \<le> now s'"
proof (cases e)
  case (Attach i)
  with assms deadlines_attach [of "c_token (conns s ! i)" "c_chan (conns s ! i)" s]
  show ?thesis by (auto split: if_splits)
next
  case (Detach i)
  with assms deadlines_detach show ?thesis by (fastforce split: if_splits)
next
  case (TimerFire t)
  with assms deadlines_fired show ?thesis
    by (fastforce simp: fire_timer_def timer_body_def split: if_splits timer_state.splits)
next
  case (Pump i)
  with assms show ?thesis by (auto simp: pump_def Let_def split: if_splits list.splits)
next
  case (WsUpgrade tok)
  with assms show ?thesis by (auto simp: ws_upgrade_def new_chan_def split: if_splits)
qed (use assms in \<open>auto split: if_splits\<close>)

lemma sleeping_in_deadlines:
  "t < length ts \<Longrightarrow> tm_state (ts ! t) = Sleeping d \<Longrightarrow> d \<in> deadlines ts"
  by (auto simp: deadlines_def intro: rev_image_eqI [OF nth_mem])

lemma reachable_deadlines:
  "reachable s \<Longrightarrow> \<forall>d \<in> deadlines (timers s). d \<le> now s + grace_period"
proof (induction rule: reachable.induct)
  case init
  then show ?case by (simp add: init_sys_def deadlines_def)
next
  case (step s e s')
  then show ?case
    using step_deadlines [OF step.hyps(2)] by fastforce
qed

subsection \<open>Termination, bounds and progress\<close>

text \<open>C24: The outbound task of an open connection terminates its backlog: a queue of n messages is forwarded by exactly n iterations, to the peer's frames in the order they were queued, after which the task waits for the next message.\<close>

theorem pump_drains_in_order:
  assumes "i < length (conns s)" and "c_phase (conns s ! i) = Open"
    and "c_chan (conns s ! i) < length (chans s)"
  shows "\<exists>s'. run (replicate (length (chans s ! c_chan (conns s ! i))) (Pump i)) s = Some s' \<and>
             c_frames (conns s' ! i) = c_frames (conns s ! i) @ chans s ! c_chan (conns s ! i) \<and>
             pump i s' = None"
proof -
  show ?thesis
    using pump_drain [OF assms(1) refl assms(3) refl] assms
    by (auto intro!: pump_empty)
qed

text \<open>C26: In every reachable state, every sleeping eviction task's deadline is at most grace_period (10) seconds after the current time.\<close>

theorem sleeping_deadline_bound:
  assumes "reachable s" and "t < length (timers s)" and "tm_state (timers s ! t) = Sleeping d"
  shows "d \<le> now s + grace_period"
  using reachable_deadlines [OF assms(1)] sleeping_in_deadlines [OF assms(2,3)] by blast

text \<open>C25: A sleeping eviction task can run within the grace period: from any reachable state, after grace_period ticks of the clock it fires, and its client's token is then gone from the registry.\<close>

theorem eviction_within_grace:
  assumes "reachable s" and "t < length (timers s)" and "is_sleeping (tm_state (timers s ! t))"
  shows "\<exists>s'. run (replicate grace_period Tick @ [TimerFire t]) s = Some s' \<and>
             tm_token (timers s ! t) \<notin> set (tokens (clients s'))"
proof -
  obtain d where d: "tm_state (timers s ! t) = Sleeping d"
    using assms(3) by (cases "tm_state (timers s ! t)") auto
  have "d \<le> now s + grace_period"
    using reachable_deadlines [OF assms(1)] sleeping_in_deadlines [OF assms(2) d] by blast
  then show ?thesis
    using assms(2) d
    by (simp add: run_append run_ticks fire_timer_def timer_body_def)
qed

subsection \<open>Witnesses\<close>

theorem pump_drains_in_order_witness:
  "0 < length (conns (init_sys\<lparr>chans := [[\<lparr>msg_from = ''Alice'', msg_body = ''hi''\<rparr>, \<lparr>msg_from = ''Alice'', msg_body = ''yo''\<rparr>]],
                    conns := [\<lparr>c_token = ''tB'', c_chan = 0, c_phase = Open, c_frames = []\<rparr>]\<rparr>)) \<and>
   (\<exists>s'. run (replicate 2 (Pump 0))
           (init_sys\<lparr>chans := [[\<lparr>msg_from = ''Alice'', msg_body = ''hi''\<rparr>, \<lparr>msg_from = ''Alice'', msg_body = ''yo''\<rparr>]],
                     conns := [\<lparr>c_token = ''tB'', c_chan = 0, c_phase = Open, c_frames = []\<rparr>]\<rparr>) = Some s' \<and>
         c_frames (conns s' ! 0) = [\<lparr>msg_from = ''Alice'', msg_body = ''hi''\<rparr>, \<lparr>msg_from = ''Alice'', msg_body = ''yo''\<rparr>] \<and>
         pump 0 s' = None)"
proof -
  let ?s = "init_sys\<lparr>chans := [[\<lparr>msg_from = ''Alice'', msg_body = ''hi''\<rparr>, \<lparr>msg_from = ''Alice'', msg_body = ''yo''\<rparr>]],
                     conns := [\<lparr>c_token = ''tB'', c_chan = 0, c_phase = Open, c_frames = []\<rparr>]\<rparr>"
  have "0 < length (conns ?s)" "c_phase (conns ?s ! 0) = Open" "c_chan (conns ?s ! 0) < length (chans ?s)"
    by simp_all
  from pump_drains_in_order [OF this] show ?thesis
    by (simp add: numeral_2_eq_2)
qed

lemma bob_in_grace_run:
  "\<exists>s. run bob_in_grace init_sys = Some s \<and> reachable s \<and> timers s \<noteq> [] \<and>
       tm_state (timers s ! 0) = Sleeping 10 \<and> tm_token (timers s ! 0) = ''tB'' \<and> now s = 0"
proof -
  have "map_option (\<lambda>s. (map tm_state (timers s), map tm_token (timers s), now s)) (run bob_in_grace init_sys) =
          Some ([Sleeping 10], [''tB''], 0)"
    unfolding bob_in_grace_def by code_simp
  then obtain s where r: "run bob_in_grace init_sys = Some s"
    and "map tm_state (timers s) = [Sleeping 10]" "map tm_token (timers s) = [''tB'']" "now s = 0"
    by (auto split: option.splits)
  moreover have "reachable s" using run_reachable [OF r reachable.init] .
  ultimately show ?thesis
    by (cases "timers s") auto
qed

theorem sleeping_deadline_bound_witness:
  "\<exists>s. run bob_in_grace init_sys = Some s \<and> reachable s \<and> 0 < length (timers s) \<and>
       tm_state (timers s ! 0) = Sleeping 10 \<and> 10 \<le> now s + grace_period"
proof -
  obtain s where "run bob_in_grace init_sys = Some s" and r: "reachable s" and l: "timers s \<noteq> []"
    and sl: "tm_state (timers s ! 0) = Sleeping 10"
    using bob_in_grace_run by blast
  moreover have "10 \<le> now s + grace_period"
    using sleeping_deadline_bound [OF r _ sl] l by simp
  ultimately show ?thesis using l by blast
qed

theorem eviction_within_grace_witness:
  "\<exists>s. run bob_in_grace init_sys = Some s \<and> reachable s \<and> 0 < length (timers s) \<and>
       is_sleeping (tm_state (timers s ! 0)) \<and>
       (\<exists>s'. run (replicate grace_period Tick @ [TimerFire 0]) s = Some s' \<and>
             ''tB'' \<notin> set (tokens (clients s')))"
proof -
  obtain s where "run bob_in_grace init_sys = Some s" and r: "reachable s" and l: "timers s \<noteq> []"
    and sl: "tm_state (timers s ! 0) = Sleeping 10" and tk: "tm_token (timers s ! 0) = ''tB''"
    using bob_in_grace_run by blast
  moreover have "\<exists>s'. run (replicate grace_period Tick @ [TimerFire 0]) s = Some s' \<and>
                   ''tB'' \<notin> set (tokens (clients s'))"
    using eviction_within_grace [OF r, of 0] l sl tk by simp
  ultimately show ?thesis using l sl by auto
qed

end
