(* ===== verification/Lifecycle.thy ===== *)
theory Lifecycle
  imports Server Progress
begin

text \<open>
  The per-client state machine of the specification (section 4.4) and a simulation of
  it by the running server of \<open>Server\<close>. \<open>life_of\<close> reads the state of a credential off
  a server state (is there a client with it, is its stored eviction task sleeping, does
  it have a sender, was the credential issued and is it pending). \<open>life_inv\<close> is the
  invariant of the connection and timer handles that the simulation needs: a client
  whose credential has a connection past its upgrade, or an eviction task, has a
  sender, and no connection or task carries a pending credential. One lemma per kind
  of event says how the event moves a credential; \<open>step_simulates_lifecycle\<close>
  collects them.
\<close>

subsection \<open>The specification's state machine\<close>

text \<open>The states of a client in section 4.4 of the specification, with
  \<open>Unregistered\<close> for a credential not yet issued or still being registered, and the
  transitions it allows (staying in a state included).\<close>

datatype life = Unregistered | Registered | Connected | Grace | Expired

inductive spec_trans :: "life \<Rightarrow> life \<Rightarrow> bool" where
  stay: "spec_trans l l"
| register: "spec_trans Unregistered Registered"
| attach: "spec_trans Registered Connected"
| detach: "spec_trans Connected Grace"
| reattach: "spec_trans Grace Connected"
| expire: "spec_trans Grace Expired"

text \<open>The state of a credential in a server state: a client in its grace period has a
  sleeping eviction task as its \<open>disconnect_timer\<close>; otherwise it is connected when
  it has a sender; a credential that was issued, is not pending and has no client has
  expired.\<close>

definition timer_pending :: "sys \<Rightarrow> client \<Rightarrow> bool" where
  "timer_pending s c =
     (case disconnect_timer c of
        Some t \<Rightarrow> t < length (timers s) \<and> is_sleeping (tm_state (timers s ! t))
      | None \<Rightarrow> False)"

definition life_of :: "sys \<Rightarrow> token \<Rightarrow> life" where
  "life_of s tok =
     (case find_by_token (clients s) tok of
        Some (_, c) \<Rightarrow> if timer_pending s c then Grace else if tx c = None then Registered else Connected
      | None \<Rightarrow> if tok \<in> set (issued s) \<and> tok \<notin> set (map snd (pending s)) then Expired else Unregistered)"

subsection \<open>Handles of connections and timers\<close>

text \<open>Every connection and every eviction task carries a token that was issued and is
  not pending; a client whose token has a connection past its upgrade, or an eviction
  task, has a sender.\<close>

definition tx_ok :: "sys \<Rightarrow> token \<Rightarrow> bool" where
  "tx_ok s tok \<longleftrightarrow> (\<forall>e \<in> set (clients s). token (snd e) = tok \<longrightarrow> tx (snd e) \<noteq> None)"

definition conn_ok :: "sys \<Rightarrow> conn \<Rightarrow> bool" where
  "conn_ok s c \<longleftrightarrow> c_token c \<in> set (issued s) \<and> (c_phase c \<noteq> Upgrading \<longrightarrow> tx_ok s (c_token c))"

definition timer_ok :: "sys \<Rightarrow> timer_task \<Rightarrow> bool" where
  "timer_ok s tm \<longleftrightarrow> tm_token tm \<in> set (issued s) \<and> tx_ok s (tm_token tm)"

definition pend_ok :: "sys \<Rightarrow> string \<times> token \<Rightarrow> bool" where
  "pend_ok s p \<longleftrightarrow> (\<forall>c \<in> set (conns s). c_token c \<noteq> snd p) \<and> (\<forall>tm \<in> set (timers s). tm_token tm \<noteq> snd p)"

definition life_inv :: "sys \<Rightarrow> bool" where
  "life_inv s \<longleftrightarrow>
     (\<forall>c \<in> set (conns s). conn_ok s c) \<and> (\<forall>tm \<in> set (timers s). timer_ok s tm) \<and>
     (\<forall>p \<in> set (pending s). pend_ok s p)"
lemma set_phase_cases: "c \<in> set (set_phase i p cs) \<Longrightarrow>
   c \<in> set cs \<or> (i < length cs \<and> c = (cs ! i)\<lparr>c_phase := p\<rparr>)"
  by (cases "i < length cs")
     (auto simp: set_phase_def list_update_beyond dest: subsetD [OF set_update_subset_insert])

lemma tm_token_abort_set: "tm \<in> set (abort_task t ts) \<Longrightarrow> \<exists>tm' \<in> set ts. tm_token tm = tm_token tm'"
  by (auto simp: abort_task_def split: timer_state.splits if_splits
           dest!: subsetD [OF set_update_subset_insert])

lemma distinct_map_eq: "distinct (map g xs) \<Longrightarrow> x \<in> set xs \<Longrightarrow> y \<in> set xs \<Longrightarrow> g x = g y \<Longrightarrow> x = y"
  by (metis distinct_map inj_onD)

lemma update_by_token_only:
  assumes "clients_wf r" and "e \<in> set (update_by_token r tok f)" and "token (snd e) = tok"
    and "\<And>c. token (f c) = token c" and "\<And>c. name (f c) = name c"
  shows "\<exists>c. snd e = f c"
proof -
  from set_update_by_token_cases [OF assms(2)] show ?thesis
  proof
    assume old: "e \<in> set r"
    obtain k c where kc: "e = (k, c)" by (cases e)
    then have "(k, f c) \<in> set (update_by_token r tok f)"
      using update_by_token_found [OF assms(1)] old assms(3) by simp
    moreover have "distinct (tokens (update_by_token r tok f))"
      using clients_wf_update_by_token [OF assms(1) assms(5) assms(4)] by (simp add: clients_wf_def)
    ultimately have "(k, f c) = e"
      using assms(2,3,4) kc by (intro distinct_map_eq [of "token \<circ> snd"]) (auto simp: tokens_def)
    then show ?thesis by auto
  qed auto
qed

lemma sys_inv_facts:
  assumes "sys_inv s"
  shows "clients_wf (clients s)" and "set (tokens (clients s)) \<subseteq> set (issued s)"
    and "\<And>p. p \<in> set (pending s) \<Longrightarrow> snd p \<notin> set (tokens (clients s))"
  using assms by (auto simp: sys_inv_def world_wf_def)

lemma life_inv_replies [simp]: "life_inv (s\<lparr>replies := r\<rparr>) = life_inv s"
  by (simp add: life_inv_def conn_ok_def timer_ok_def pend_ok_def tx_ok_def)

lemma life_inv_RegCheck:
  assumes "life_inv s" and "step (RegCheck n tok) s = Some s'"
  shows "life_inv s'"
proof (cases "reg_check (clients s) n")
  case True
  with assms show ?thesis by auto
next
  case False
  with assms(2) have fresh: "tok \<notin> set (issued s)"
    and s': "s' = s\<lparr>pending := pending s @ [(n, tok)], issued := issued s @ [tok]\<rparr>"
    by (auto split: if_splits)
  have "\<forall>c \<in> set (conns s). c_token c \<noteq> tok" "\<forall>tm \<in> set (timers s). tm_token tm \<noteq> tok"
    using assms(1) fresh by (auto simp: life_inv_def conn_ok_def timer_ok_def)
  with assms(1) show ?thesis
    by (auto simp: s' life_inv_def conn_ok_def timer_ok_def pend_ok_def tx_ok_def)
qed

lemma life_inv_RegCommit:
  assumes "life_inv s" and "step (RegCommit n tok) s = Some s'"
  shows "life_inv s'"
proof -
  have p: "(n, tok) \<in> set (pending s)"
    and s': "s' = s\<lparr>clients := reg_insert n tok (clients s), pending := remove1 (n, tok) (pending s),
                     replies := replies s @ [RegOk tok]\<rparr>"
    using assms(2) by (auto split: if_splits)
  have "pend_ok s (n, tok)"
    using assms(1) p by (simp add: life_inv_def)
  then have tok_c: "\<forall>c \<in> set (conns s). c_token c \<noteq> tok" and tok_t: "\<forall>tm \<in> set (timers s). tm_token tm \<noteq> tok"
    by (simp_all add: pend_ok_def)
  have tx: "tx_ok s' t" if "tx_ok s t" and "t \<noteq> tok" for t
    using that by (auto simp: s' tx_ok_def reg_insert_def hm_insert_def new_client_def dest: set_update_cases)
  have "\<forall>c \<in> set (conns s'). conn_ok s' c"
    using assms(1) tok_c tx by (auto simp: s' life_inv_def conn_ok_def)
  moreover have "\<forall>tm \<in> set (timers s'). timer_ok s' tm"
    using assms(1) tok_t tx by (auto simp: s' life_inv_def timer_ok_def)
  moreover have "\<forall>p \<in> set (pending s'). pend_ok s' p"
    using assms(1) by (auto simp: s' life_inv_def pend_ok_def dest: subsetD [OF set_remove1_subset])
  ultimately show ?thesis by (simp add: life_inv_def)
qed
lemma tx_ok_update_by_token:
  assumes "tx_ok s t" and "\<And>c. token (f c) = token c" and "\<And>c. tx c \<noteq> None \<Longrightarrow> tx (f c) \<noteq> None"
  shows "tx_ok (s'\<lparr>clients := update_by_token (clients s) tok f\<rparr>) t"
  using assms by (fastforce simp: tx_ok_def dest: set_update_by_token_cases)

lemma tx_ok_attach:
  assumes "clients_wf (clients s)" and "tx_ok s t \<or> t = ct"
  shows "tx_ok (cc_attach ct ch s) t"
proof (cases "find_by_token (clients s) ct")
  case None
  then have "tx_ok s ct"
    by (auto simp: tx_ok_def find_by_token_None tokens_def)
  with None assms(2) show ?thesis by (auto simp: cc_attach_def)
next
  case (Some e)
  let ?f = "\<lambda>c. c\<lparr>disconnect_timer := None, tx := Some ch\<rparr>"
  have upd: "clients (cc_attach ct ch s) = update_by_token (clients s) ct ?f"
    using Some by (cases e) (simp add: cc_attach_def)
  show ?thesis
  proof (cases "t = ct")
    case True
    have "tx (snd e') \<noteq> None" if "e' \<in> set (update_by_token (clients s) ct ?f)" "token (snd e') = ct" for e'
      using update_by_token_only [OF assms(1) that] by auto
    with True show ?thesis
      by (auto simp: tx_ok_def upd)
  next
    case False
    with assms(2) have "tx_ok s t" by simp
    then have "tx_ok (s\<lparr>clients := update_by_token (clients s) ct ?f\<rparr>) t"
      by (rule tx_ok_update_by_token) simp_all
    then show ?thesis
      by (simp add: tx_ok_def upd)
  qed
qed

lemma tx_ok_detach: "tx_ok s t \<Longrightarrow> tx_ok (cc_detach ct s) t"
  by (auto simp: cc_detach_def spawn_timer_def tx_ok_def dest!: set_update_by_token_cases
           split: option.splits prod.splits)

lemma any_token_issued:
  "sys_inv s \<Longrightarrow> any_token (clients s) tok \<Longrightarrow> tok \<in> set (issued s) \<and> (\<forall>p \<in> set (pending s). snd p \<noteq> tok)"
  by (auto simp: any_token_find find_by_token_None sys_inv_def)

lemma life_inv_WsUpgrade:
  assumes "sys_inv s" and "life_inv s" and "step (WsUpgrade tok) s = Some s'"
  shows "life_inv s'"
proof (cases "ws_handler tok s")
  case True
  then have s': "s' = s\<lparr>chans := chans s @ [[]],
        conns := conns s @ [\<lparr>c_token = tok, c_chan = length (chans s), c_phase = Upgrading, c_frames = []\<rparr>]\<rparr>"
    using assms(3) by (simp add: ws_upgrade_def new_chan_def)
  have "tok \<in> set (issued s)" "\<forall>p \<in> set (pending s). snd p \<noteq> tok"
    using any_token_issued [OF assms(1)] True by (simp_all add: ws_handler_def)
  with assms(2) show ?thesis
    by (auto simp: s' life_inv_def conn_ok_def timer_ok_def pend_ok_def tx_ok_def)
next
  case False
  with assms show ?thesis by (simp add: ws_upgrade_def)
qed

lemma life_inv_frame:
  assumes "life_inv s" and "issued s' = issued s" and "pending s' = pending s"
    and "\<And>t. tx_ok s t \<Longrightarrow> tx_ok s' t"
    and "\<And>c. c \<in> set (conns s') \<Longrightarrow>
           \<exists>c0 \<in> set (conns s). c_token c = c_token c0 \<and> (c_phase c0 = Upgrading \<longrightarrow> c_phase c = Upgrading)"
    and "\<And>tm. tm \<in> set (timers s') \<Longrightarrow> \<exists>tm0 \<in> set (timers s). tm_token tm = tm_token tm0"
  shows "life_inv s'"
proof -
  have "\<forall>c \<in> set (conns s'). conn_ok s' c"
  proof
    fix c assume "c \<in> set (conns s')"
    then obtain c0 where "c0 \<in> set (conns s)" "c_token c = c_token c0"
      "c_phase c0 = Upgrading \<longrightarrow> c_phase c = Upgrading"
      using assms(5) by blast
    with assms(1,2,4) show "conn_ok s' c"
      by (auto simp: life_inv_def conn_ok_def)
  qed
  moreover have "\<forall>tm \<in> set (timers s'). timer_ok s' tm"
    using assms(1,2,4,6) by (fastforce simp: life_inv_def timer_ok_def)
  moreover have "\<forall>p \<in> set (pending s'). pend_ok s' p"
    using assms(1,3,5,6) by (fastforce simp: life_inv_def pend_ok_def)
  ultimately show ?thesis by (simp add: life_inv_def)
qed

lemma set_phase_tokens:
  "c \<in> set (set_phase i p cs) \<Longrightarrow> p \<noteq> Upgrading \<Longrightarrow> i < length cs \<Longrightarrow> c_phase (cs ! i) \<noteq> Upgrading \<Longrightarrow>
   \<exists>c0 \<in> set cs. c_token c = c_token c0 \<and> (c_phase c0 = Upgrading \<longrightarrow> c_phase c = Upgrading)"
  by (auto dest!: set_phase_cases)

lemma life_inv_PeerClose:
  assumes "life_inv s" and "step (PeerClose i) s = Some s'"
  shows "life_inv s'"
proof -
  have i: "i < length (conns s)" "c_phase (conns s ! i) = Open"
    and s': "s' = s\<lparr>conns := set_phase i Closed (conns s)\<rparr>"
    using assms(2) by (auto split: if_splits)
  show ?thesis
    by (rule life_inv_frame [OF assms(1)]) (auto simp: s' tx_ok_def i intro!: set_phase_tokens)
qed

lemma life_inv_Pump:
  assumes "life_inv s" and "step (Pump i) s = Some s'"
  shows "life_inv s'"
proof -
  obtain c m ms where s': "s' = s\<lparr>chans := (chans s)[c_chan c := ms],
       conns := (if c_phase c = Open then (conns s)[i := c\<lparr>c_frames := c_frames c @ [m]\<rparr>] else conns s)\<rparr>"
    and c: "i < length (conns s)" "c = conns s ! i"
    using assms(2) by (auto simp: pump_def Let_def split: if_splits list.splits)
  show ?thesis
    by (rule life_inv_frame [OF assms(1)])
       (use c in \<open>auto simp: s' tx_ok_def dest!: subsetD [OF set_update_subset_insert] split: if_splits\<close>)
qed

lemma life_inv_TimerFire:
  assumes "life_inv s" and "step (TimerFire t) s = Some s'"
  shows "life_inv s'"
proof -
  have t: "t < length (timers s)"
    and s': "s' = timer_body (tm_token (timers s ! t)) (s\<lparr>timers := (timers s)[t := (timers s ! t)\<lparr>tm_state := Fired\<rparr>]\<rparr>)"
    using assms(2) by (auto simp: fire_timer_def split: if_splits timer_state.splits)
  show ?thesis
    by (rule life_inv_frame [OF assms(1)])
       (use t in \<open>auto simp: s' timer_body_def retain_token_def tx_ok_def
                  dest!: subsetD [OF set_update_subset_insert]\<close>)
qed

lemma life_inv_conn_step:
  assumes li: "life_inv s" and i: "i < length (conns s)"
    and iss: "issued s' = issued s" and pend: "pending s' = pending s"
    and cs: "conns s' = set_phase i p (conns s)"
    and tx: "\<And>t. tx_ok s t \<Longrightarrow> tx_ok s' t"
    and txi: "p \<noteq> Upgrading \<Longrightarrow> tx_ok s' (c_token (conns s ! i))"
    and tms: "\<And>tm. tm \<in> set (timers s') \<Longrightarrow>
               (\<exists>tm0 \<in> set (timers s). tm_token tm = tm_token tm0) \<or>
               (tm_token tm = c_token (conns s ! i) \<and> tx_ok s' (c_token (conns s ! i)))"
  shows "life_inv s'"
proof -
  let ?c = "conns s ! i"
  have ci: "conn_ok s ?c" using li i by (simp add: life_inv_def)
  have "conn_ok s' c" if "c \<in> set (conns s')" for c
  proof -
    from that have "c \<in> set (conns s) \<or> c = ?c\<lparr>c_phase := p\<rparr>"
      by (auto simp: cs dest: set_phase_cases)
    then show ?thesis
    proof
      assume "c \<in> set (conns s)"
      then have "conn_ok s c" using li by (simp add: life_inv_def)
      then show ?thesis using tx by (simp add: conn_ok_def iss)
    next
      assume "c = ?c\<lparr>c_phase := p\<rparr>"
      then show ?thesis using ci txi by (simp add: conn_ok_def iss)
    qed
  qed
  moreover have "timer_ok s' tm" if tmin: "tm \<in> set (timers s')" for tm
    using tms [OF tmin]
  proof
    assume "\<exists>tm0 \<in> set (timers s). tm_token tm = tm_token tm0"
    then obtain tm0 where tm0: "tm0 \<in> set (timers s)" and eq: "tm_token tm = tm_token tm0" by blast
    have "timer_ok s tm0" using li tm0 by (simp add: life_inv_def)
    then show ?thesis using tx eq by (simp add: timer_ok_def iss)
  next
    assume "tm_token tm = c_token ?c \<and> tx_ok s' (c_token ?c)"
    then show ?thesis using ci by (simp add: timer_ok_def conn_ok_def iss)
  qed
  moreover have "pend_ok s' q" if qin: "q \<in> set (pending s')" for q
  proof -
    have po: "pend_ok s q" using li qin by (simp add: life_inv_def pend)
    then have ciq: "c_token ?c \<noteq> snd q" using i by (simp add: pend_ok_def)
    have "c_token c \<noteq> snd q" if "c \<in> set (conns s')" for c
      using that po i by (auto simp: cs pend_ok_def dest!: set_phase_cases)
    moreover have "tm_token tm \<noteq> snd q" if "tm \<in> set (timers s')" for tm
      using tms [OF that] po ciq by (auto simp: pend_ok_def)
    ultimately show ?thesis by (simp add: pend_ok_def)
  qed
  ultimately show ?thesis by (simp add: life_inv_def del: timer_ok_def conn_ok_def pend_ok_def)
qed

lemma life_inv_Attach:
  assumes "sys_inv s" and "life_inv s" and "step (Attach i) s = Some s'"
  shows "life_inv s'"
proof -
  let ?c = "conns s ! i"
  have i: "i < length (conns s)" "c_phase ?c = Upgrading"
    and s': "s' = (cc_attach (c_token ?c) (c_chan ?c) s)\<lparr>conns := set_phase i Open (conns s)\<rparr>"
    using assms(3) by (auto split: if_splits)
  have wf: "clients_wf (clients s)" using assms(1) by (simp add: sys_inv_def world_wf_def)
  have tx: "tx_ok s' t" if "tx_ok s t \<or> t = c_token ?c" for t
    using tx_ok_attach [OF wf that] by (simp add: s' tx_ok_def)
  show ?thesis
  proof (rule life_inv_conn_step [OF assms(2) i(1), where p = Open])
    fix tm assume "tm \<in> set (timers s')"
    then show "(\<exists>tm0 \<in> set (timers s). tm_token tm = tm_token tm0) \<or>
               (tm_token tm = c_token ?c \<and> tx_ok s' (c_token ?c))"
      by (auto simp: s' cc_attach_def dest: tm_token_abort_set split: option.splits prod.splits)
  qed (use tx in \<open>simp_all add: s'\<close>)
qed

lemma timers_detach_cases:
  "tm \<in> set (timers (cc_detach ct s)) \<Longrightarrow>
   tm \<in> set (timers s) \<or> (tm_token tm = ct \<and> ct \<in> set (tokens (clients s)))"
  by (auto simp: cc_detach_def spawn_timer_def tokens_def split: option.splits prod.splits
           dest!: find_by_token_SomeD intro: rev_image_eqI)

lemma life_inv_Detach:
  assumes "sys_inv s" and "life_inv s" and "step (Detach i) s = Some s'"
  shows "life_inv s'"
proof -
  let ?c = "conns s ! i" let ?ct = "c_token (conns s ! i)"
  have i: "i < length (conns s)" "c_phase ?c = Closed"
    and s': "s' = (cc_detach ?ct s)\<lparr>conns := set_phase i Done (conns s)\<rparr>"
    using assms(3) by (auto split: if_splits)
  have tx: "tx_ok s' t" if "tx_ok s t" for t
    using tx_ok_detach [OF that] by (simp add: s' tx_ok_def)
  have txc: "tx_ok s' ?ct"
    using assms(2) i tx by (auto simp: life_inv_def conn_ok_def)
  show ?thesis
  proof (rule life_inv_conn_step [OF assms(2) i(1), where p = Done])
    fix tm assume "tm \<in> set (timers s')"
    then have "tm \<in> set (timers s) \<or> tm_token tm = ?ct"
      using timers_detach_cases [of tm ?ct s] by (auto simp: s')
    then show "(\<exists>tm0 \<in> set (timers s). tm_token tm = tm_token tm0) \<or>
               (tm_token tm = ?ct \<and> tx_ok s' ?ct)"
      using txc by blast
  qed (use tx txc in \<open>simp_all add: s'\<close>)
qed

lemma life_inv_step:
  assumes "sys_inv s" and "life_inv s" and "step e s = Some s'"
  shows "life_inv s'"
proof (cases e)
  case (RegCheck n tok) with assms show ?thesis by (simp add: life_inv_RegCheck)
next
  case (RegCommit n tok) with assms show ?thesis by (simp add: life_inv_RegCommit)
next
  case (WsUpgrade tok) with assms show ?thesis by (simp add: life_inv_WsUpgrade)
next
  case (Attach i) with assms show ?thesis by (simp add: life_inv_Attach)
next
  case (PeerClose i) with assms show ?thesis by (simp add: life_inv_PeerClose)
next
  case (Detach i) with assms show ?thesis by (simp add: life_inv_Detach)
next
  case (Pump i) with assms show ?thesis by (simp add: life_inv_Pump)
next
  case Tick
  then have s': "s' = s\<lparr>now := Suc (now s)\<rparr>" using assms(3) by simp
  show ?thesis
    by (rule life_inv_frame [OF assms(2)]) (auto simp: s' tx_ok_def)
next
  case (TimerFire t) with assms show ?thesis by (simp add: life_inv_TimerFire)
next
  case (SendMessage tok to b)
  then have s': "s' = snd (handle_send_message tok to b s)" using assms(3) by simp
  show ?thesis
    by (rule life_inv_frame [OF assms(2)]) (auto simp: s' tx_ok_def)
qed

lemma reachable_life_inv: "reachable s \<Longrightarrow> life_inv s"
proof (induction rule: reachable.induct)
  case init
  then show ?case by (simp add: init_sys_def life_inv_def)
next
  case (step s e s')
  then show ?case using life_inv_step reachable_inv by blast
qed

subsection \<open>How each step moves a credential\<close>

inductive_simps spec_trans_iff: "spec_trans a b"

lemma life_of_cong:
  assumes "find_by_token (clients s') tok = find_by_token (clients s) tok"
    and "\<And>k c. find_by_token (clients s) tok = Some (k, c) \<Longrightarrow> timer_pending s' c = timer_pending s c"
    and "tok \<in> set (issued s') \<longleftrightarrow> tok \<in> set (issued s)"
    and "tok \<in> set (map snd (pending s')) \<longleftrightarrow> tok \<in> set (map snd (pending s))"
  shows "life_of s' tok = life_of s tok"
  using assms by (auto simp: life_of_def split: option.splits)

lemma timer_pending_same:
  assumes "ptrs_ok s c"
    and "\<And>t. disconnect_timer c = Some t \<Longrightarrow> t < length (timers s) \<Longrightarrow>
            t < length (timers s') \<and> timers s' ! t = timers s ! t"
  shows "timer_pending s' c = timer_pending s c"
  using assms by (auto simp: timer_pending_def ptrs_ok_def split: option.splits)

lemma found_ptrs_ok:
  "sys_inv s \<Longrightarrow> find_by_token (clients s) tok = Some (k, c) \<Longrightarrow> ptrs_ok s c \<and> token c = tok"
  by (fastforce simp: sys_inv_def world_wf_def dest: find_by_token_SomeD)

lemma timer_pending_eq:
  assumes "timers s' = timers s" shows "timer_pending s' = timer_pending s"
  unfolding timer_pending_def assms ..

lemma life_of_frame:
  "clients s' = clients s \<Longrightarrow> timers s' = timers s \<Longrightarrow> issued s' = issued s \<Longrightarrow> pending s' = pending s \<Longrightarrow>
   life_of s' tok = life_of s tok"
  by (rule life_of_cong) (auto simp: timer_pending_def split: option.splits)

lemma life_of_other_token:
  assumes "sys_inv s"
    and "find_by_token (clients s') tok = find_by_token (clients s) tok"
    and "issued s' = issued s" and "pending s' = pending s"
    and "\<And>t. t < length (timers s) \<Longrightarrow> tm_token (timers s ! t) = tok \<Longrightarrow>
            t < length (timers s') \<and> timers s' ! t = timers s ! t"
  shows "life_of s' tok = life_of s tok"
proof (rule life_of_cong)
  fix k c assume f: "find_by_token (clients s) tok = Some (k, c)"
  have p: "ptrs_ok s c" and tc: "token c = tok" using found_ptrs_ok [OF assms(1) f] by blast+
  show "timer_pending s' c = timer_pending s c"
  proof (rule timer_pending_same [OF p])
    fix t assume d: "disconnect_timer c = Some t" and l: "t < length (timers s)"
    then have "tm_token (timers s ! t) = tok" using p tc unfolding ptrs_ok_def by auto
    with l show "t < length (timers s') \<and> timers s' ! t = timers s ! t" by (rule assms(5))
  qed
qed (use assms(2-4) in simp_all)

lemma life_RegCheck:
  assumes "sys_inv s" and "step (RegCheck n tok') s = Some s'"
  shows "life_of s' tok = life_of s tok"
proof (cases "reg_check (clients s) n")
  case True
  with assms(2) show ?thesis by (auto intro: life_of_frame)
next
  case False
  with assms(2) have fresh: "tok' \<notin> set (issued s)"
    and s': "s' = s\<lparr>pending := pending s @ [(n, tok')], issued := issued s @ [tok']\<rparr>"
    by (auto split: if_splits)
  show ?thesis
  proof (cases "tok = tok'")
    case True
    have "find_by_token (clients s) tok = None"
      using sys_inv_facts(2) [OF assms(1)] fresh True by (auto simp: find_by_token_None)
    with True fresh show ?thesis by (simp add: life_of_def s')
  next
    case False
    have "timer_pending s' = timer_pending s" by (rule timer_pending_eq) (simp add: s')
    with False show ?thesis by (intro life_of_cong) (auto simp: s')
  qed
qed

lemma find_by_token_reg_insert:
  assumes "clients_wf r" and "tok' \<notin> set (tokens r)" and "tok \<noteq> tok'"
    and "find_by_token (reg_insert n tok' r) tok = Some e"
  shows "find_by_token r tok = Some e"
proof -
  have wf': "clients_wf (reg_insert n tok' r)"
    using clients_wf_insert [OF assms(1,2)] by (simp add: reg_insert_def)
  have "e \<in> set (reg_insert n tok' r)" "token (snd e) = tok"
    using find_by_token_wf [OF wf'] assms(4) by blast+
  then have "e \<in> set r"
    using assms(3) by (auto simp: reg_insert_def hm_insert_def new_client_def dest: set_update_cases)
  then show ?thesis
    using find_by_token_wf [OF assms(1)] \<open>token (snd e) = tok\<close> by blast
qed

lemma find_by_token_reg_insert_new:
  assumes "clients_wf r" and "tok \<notin> set (tokens r)"
  shows "find_by_token (reg_insert n tok r) tok = Some (to_lowercase n, new_client n tok)"
proof -
  have "clients_wf (reg_insert n tok r)"
    using clients_wf_insert [OF assms] by (simp add: reg_insert_def)
  moreover have "(to_lowercase n, new_client n tok) \<in> set (reg_insert n tok r)"
    by (simp add: reg_insert_def hm_insert_def in_set_update_new)
  ultimately show ?thesis
    using find_by_token_wf by (simp add: new_client_def)
qed

lemma life_RegCommit_new:
  assumes "sys_inv s" and p: "(n, tok) \<in> set (pending s)"
  shows "life_of s tok = Unregistered \<and>
         life_of (s\<lparr>clients := reg_insert n tok (clients s), pending := remove1 (n, tok) (pending s),
                    replies := rs\<rparr>) tok = Registered"
proof -
  have wf: "clients_wf (clients s)" and fresh: "tok \<notin> set (tokens (clients s))"
    using sys_inv_facts [OF assms(1)] p by auto
  have "find_by_token (reg_insert n tok (clients s)) tok = Some (to_lowercase n, new_client n tok)"
    using find_by_token_reg_insert_new [OF wf fresh] .
  then have "life_of (s\<lparr>clients := reg_insert n tok (clients s), pending := remove1 (n, tok) (pending s),
                    replies := rs\<rparr>) tok = Registered"
    by (simp add: life_of_def timer_pending_def new_client_def)
  moreover have "find_by_token (clients s) tok = None"
    using fresh by (simp add: find_by_token_None)
  then have "life_of s tok = Unregistered"
    using p by (auto simp: life_of_def rev_image_eqI)
  ultimately show ?thesis by blast
qed

lemma life_RegCommit:
  assumes "sys_inv s" and "step (RegCommit n tok') s = Some s'"
  shows "spec_trans (life_of s tok) (life_of s' tok) \<or> (tok' \<noteq> tok \<and> life_of s' tok = Expired)"
proof -
  have p: "(n, tok') \<in> set (pending s)"
    and s': "s' = s\<lparr>clients := reg_insert n tok' (clients s), pending := remove1 (n, tok') (pending s),
                     replies := replies s @ [RegOk tok']\<rparr>"
    using assms(2) by (auto split: if_splits)
  have wf: "clients_wf (clients s)" and iss: "set (tokens (clients s)) \<subseteq> set (issued s)"
    and fresh: "tok' \<notin> set (tokens (clients s))"
    using sys_inv_facts [OF assms(1)] p by auto
  have tp: "timer_pending s' = timer_pending s" by (rule timer_pending_eq) (simp add: s')
  show ?thesis
  proof (cases "tok = tok'")
    case True
    with life_RegCommit_new [OF assms(1) p] show ?thesis by (simp add: s' spec_trans.register)
  next
    case False
    have pend: "tok \<in> set (map snd (remove1 (n, tok') (pending s))) \<longleftrightarrow> tok \<in> set (map snd (pending s))"
      using False by (auto simp: in_set_remove1 rev_image_eqI dest: subsetD [OF set_remove1_subset])
    show ?thesis
    proof (cases "find_by_token (clients s') tok")
      case (Some e)
      then have "find_by_token (clients s) tok = Some e"
        using find_by_token_reg_insert [OF wf fresh] False by (simp add: s')
      then have "life_of s' tok = life_of s tok"
        using Some pend tp by (intro life_of_cong) (auto simp: s')
      then show ?thesis by (simp add: spec_trans.stay)
    next
      case None
      show ?thesis
      proof (cases "find_by_token (clients s) tok")
        case None': None
        then have "life_of s' tok = life_of s tok"
          using None pend by (intro life_of_cong) (auto simp: s')
        then show ?thesis by (simp add: spec_trans.stay)
      next
        case (Some e)
        then have "tok \<in> set (tokens (clients s))" by (metis find_by_token_None option.distinct(1))
        then have "tok \<in> set (issued s)" "tok \<notin> set (map snd (pending s))"
          using iss assms(1) by (auto simp: sys_inv_def)
        then have "life_of s' tok = Expired"
          using None pend by (simp add: life_of_def s')
        with False show ?thesis by simp
      qed
    qed
  qed
qed

lemma cc_attach_found:
  "find_by_token (clients w) ct = Some (k, c) \<Longrightarrow>
   clients (cc_attach ct ch w) = update_by_token (clients w) ct (\<lambda>c. c\<lparr>disconnect_timer := None, tx := Some ch\<rparr>) \<and>
   timers (cc_attach ct ch w) = (case disconnect_timer c of None \<Rightarrow> timers w | Some t \<Rightarrow> abort_task t (timers w))"
  by (simp add: cc_attach_def)

lemma life_Attach:
  assumes "sys_inv s" and "step (Attach i) s = Some s'"
  shows "spec_trans (life_of s tok) (life_of s' tok)"
proof -
  let ?ct = "c_token (conns s ! i)" and ?ch = "c_chan (conns s ! i)"
  have s': "s' = (cc_attach ?ct ?ch s)\<lparr>conns := set_phase i Open (conns s)\<rparr>"
    using assms(2) by (auto split: if_splits)
  show ?thesis
  proof (cases "find_by_token (clients s) ?ct")
    case None
    then have "life_of s' tok = life_of s tok"
      by (intro life_of_frame) (simp_all add: s' cc_attach_def)
    then show ?thesis by (simp add: spec_trans.stay)
  next
    case (Some e)
    obtain k c where e: "e = (k, c)" by (cases e)
    let ?f = "\<lambda>c. c\<lparr>disconnect_timer := None, tx := Some ?ch\<rparr>"
    have cl: "clients s' = update_by_token (clients s) ?ct ?f"
      and tm: "timers s' = (case disconnect_timer c of None \<Rightarrow> timers s | Some t \<Rightarrow> abort_task t (timers s))"
      using cc_attach_found [OF Some [unfolded e]] by (simp_all add: s')
    have pc: "ptrs_ok s c" "token c = ?ct" using found_ptrs_ok [OF assms(1)] Some e by blast+
    show ?thesis
    proof (cases "tok = ?ct")
      case True
      have "find_by_token (clients s') tok = Some (k, ?f c)"
        using Some e True by (simp add: cl find_by_token_update_by_token)
      then have "life_of s' tok = Connected"
        by (simp add: life_of_def timer_pending_def)
      moreover have "life_of s tok \<in> {Registered, Connected, Grace}"
        using Some e True by (auto simp: life_of_def)
      ultimately show ?thesis by (auto simp: spec_trans_iff)
    next
      case False
      have "life_of s' tok = life_of s tok"
      proof (rule life_of_other_token [OF assms(1)])
        show "find_by_token (clients s') tok = find_by_token (clients s) tok"
          using False by (simp add: cl find_by_token_update_by_token)
        fix t2 assume l2: "t2 < length (timers s)" and tt2: "tm_token (timers s ! t2) = tok"
        have "tm_token (timers s ! t) = ?ct" if "disconnect_timer c = Some t" for t
          using pc that unfolding ptrs_ok_def by metis
        with tt2 show "t2 < length (timers s') \<and> timers s' ! t2 = timers s ! t2"
          using l2 False by (auto simp: tm abort_task_nth split: option.splits)
      qed (simp_all add: s')
      then show ?thesis by (simp add: spec_trans.stay)
    qed
  qed
qed

lemma cc_detach_found:
  "find_by_token (clients w) ct = Some e \<Longrightarrow>
   clients (cc_detach ct w) =
     update_by_token (clients w) ct (\<lambda>c. c\<lparr>disconnect_timer := Some (length (timers w))\<rparr>) \<and>
   timers (cc_detach ct w) = timers w @ [\<lparr>tm_token = ct, tm_state = Sleeping (now w + grace_period)\<rparr>]"
  by (simp add: cc_detach_def spawn_timer_def)

lemma life_Detach:
  assumes "sys_inv s" and "life_inv s" and "step (Detach i) s = Some s'"
  shows "spec_trans (life_of s tok) (life_of s' tok)"
proof -
  let ?ct = "c_token (conns s ! i)"
  have i: "i < length (conns s)" "c_phase (conns s ! i) = Closed"
    and s': "s' = (cc_detach ?ct s)\<lparr>conns := set_phase i Done (conns s)\<rparr>"
    using assms(3) by (auto split: if_splits)
  have txc: "tx_ok s ?ct"
    using assms(2) i by (auto simp: life_inv_def conn_ok_def)
  show ?thesis
  proof (cases "find_by_token (clients s) ?ct")
    case None
    then have "life_of s' tok = life_of s tok"
      by (intro life_of_frame) (simp_all add: s' cc_detach_def)
    then show ?thesis by (simp add: spec_trans.stay)
  next
    case (Some e)
    obtain k c where e: "e = (k, c)" by (cases e)
    let ?f = "\<lambda>c. c\<lparr>disconnect_timer := Some (length (timers s))\<rparr>"
    have cl: "clients s' = update_by_token (clients s) ?ct ?f"
      and tm: "timers s' = timers s @ [\<lparr>tm_token = ?ct, tm_state = Sleeping (now s + grace_period)\<rparr>]"
      using cc_detach_found [OF Some] by (simp_all add: s')
    show ?thesis
    proof (cases "tok = ?ct")
      case True
      have "find_by_token (clients s') tok = Some (k, ?f c)"
        using Some e True by (simp add: cl find_by_token_update_by_token)
      then have "life_of s' tok = Grace"
        by (simp add: life_of_def timer_pending_def tm)
      moreover have "tx c \<noteq> None"
        using txc find_by_token_SomeD [OF Some] e by (auto simp: tx_ok_def)
      then have "life_of s tok \<in> {Connected, Grace}"
        using Some e True by (auto simp: life_of_def)
      ultimately show ?thesis by (auto simp: spec_trans_iff)
    next
      case False
      have "life_of s' tok = life_of s tok"
      proof (rule life_of_other_token [OF assms(1)])
        show "find_by_token (clients s') tok = find_by_token (clients s) tok"
          using False by (simp add: cl find_by_token_update_by_token)
        fix t2 assume "t2 < length (timers s)"
        then show "t2 < length (timers s') \<and> timers s' ! t2 = timers s ! t2" by (simp add: tm nth_append)
      qed (simp_all add: s')
      then show ?thesis by (simp add: spec_trans.stay)
    qed
  qed
qed

lemma life_TimerFire:
  assumes "sys_inv s" and "life_inv s" and "step (TimerFire t) s = Some s'"
  shows "spec_trans (life_of s tok) (life_of s' tok) \<or>
         (life_of s tok = Connected \<and> life_of s' tok = Expired)"
proof -
  let ?tt = "tm_token (timers s ! t)"
  have t: "t < length (timers s)"
    and s': "s' = timer_body ?tt (s\<lparr>timers := (timers s)[t := (timers s ! t)\<lparr>tm_state := Fired\<rparr>]\<rparr>)"
    using assms(3) by (auto simp: fire_timer_def split: if_splits timer_state.splits)
  have cl: "clients s' = retain_token (clients s) ?tt"
    and tm: "timers s' = (timers s)[t := (timers s ! t)\<lparr>tm_state := Fired\<rparr>]"
    by (simp_all add: s' timer_body_def)
  have tko: "timer_ok s (timers s ! t)" and "\<forall>p \<in> set (pending s). pend_ok s p"
    using assms(2) t by (auto simp: life_inv_def)
  then have iss: "?tt \<in> set (issued s)" and txtt: "tx_ok s ?tt" and np: "?tt \<notin> set (map snd (pending s))"
    using t by (auto simp: timer_ok_def pend_ok_def)
  show ?thesis
  proof (cases "tok = ?tt")
    case True
    have "find_by_token (clients s') tok = None"
      using True by (simp add: cl find_by_token_retain)
    then have after: "life_of s' tok = Expired"
      using True iss np by (simp add: life_of_def s' timer_body_def)
    show ?thesis
    proof (cases "find_by_token (clients s) tok")
      case None
      then have "life_of s tok = Expired"
        using True iss np by (simp add: life_of_def)
      with after show ?thesis by (simp add: spec_trans.stay)
    next
      case (Some e)
      then have "tx (snd e) \<noteq> None"
        using txtt True find_by_token_SomeD [OF Some] by (auto simp: tx_ok_def)
      then have "life_of s tok \<in> {Connected, Grace}"
        using Some by (auto simp: life_of_def split: prod.splits)
      with after show ?thesis by (auto simp: spec_trans_iff)
    qed
  next
    case False
    have "life_of s' tok = life_of s tok"
    proof (rule life_of_other_token [OF assms(1)])
      show "find_by_token (clients s') tok = find_by_token (clients s) tok"
        using False by (simp add: cl find_by_token_retain)
      fix t2 assume "t2 < length (timers s)" and "tm_token (timers s ! t2) = tok"
      with False have "t2 \<noteq> t" by auto
      with \<open>t2 < length (timers s)\<close> show "t2 < length (timers s') \<and> timers s' ! t2 = timers s ! t2"
        by (simp add: tm)
    qed (simp_all add: s' timer_body_def)
    then show ?thesis by (simp add: spec_trans.stay)
  qed
qed

lemma step_life:
  assumes "reachable s" and "step e s = Some s'"
  shows "spec_trans (life_of s tok) (life_of s' tok) \<or>
         (\<exists>t. e = TimerFire t \<and> life_of s tok = Connected \<and> life_of s' tok = Expired) \<or>
         (\<exists>n tok'. e = RegCommit n tok' \<and> tok' \<noteq> tok \<and> life_of s' tok = Expired)"
proof -
  have si: "sys_inv s" and li: "life_inv s"
    using reachable_inv reachable_life_inv assms(1) by blast+
  have same: "life_of s' tok = life_of s tok \<Longrightarrow> ?thesis" by (simp add: spec_trans.stay)
  show ?thesis
  proof (cases e)
    case (RegCheck n tok') with assms(2) si show ?thesis by (intro same) (simp add: life_RegCheck)
  next
    case (RegCommit n tok') with assms(2) si life_RegCommit [OF si] show ?thesis by auto
  next
    case (WsUpgrade t)
    with assms(2) show ?thesis by (intro same life_of_frame) (auto simp: ws_upgrade_def new_chan_def)
  next
    case (Attach i) with assms(2) si life_Attach show ?thesis by auto
  next
    case (PeerClose i) with assms(2) show ?thesis by (intro same life_of_frame) (auto split: if_splits)
  next
    case (Detach i) with assms(2) si li life_Detach show ?thesis by auto
  next
    case (Pump i)
    with assms(2) show ?thesis
      by (intro same life_of_frame) (auto simp: pump_def Let_def split: if_splits list.splits)
  next
    case Tick with assms(2) show ?thesis by (intro same life_of_frame) auto
  next
    case (TimerFire t) with assms(2) si li life_TimerFire [OF si li] show ?thesis by auto
  next
    case (SendMessage t x b) with assms(2) show ?thesis by (intro same life_of_frame) auto
  qed
qed

subsection \<open>Simulation of the specification's state machine\<close>

text \<open>C3: Every step of the running server moves each credential along a transition of the specification's per-client state machine (Unregistered, Registered, Connected, Grace, Expired), with exactly two exceptions: an eviction task that fires while its client is connected again (a stale timer) takes Connected directly to Expired, and a registration that commits over an existing client of the same name expires that client's credential.\<close>

theorem step_simulates_lifecycle:
  assumes "reachable s" and "step e s = Some s'"
  shows "spec_trans (life_of s tok) (life_of s' tok) \<or>
         (\<exists>t. e = TimerFire t \<and> life_of s tok = Connected \<and> life_of s' tok = Expired) \<or>
         (\<exists>n tok'. e = RegCommit n tok' \<and> tok' \<noteq> tok \<and> life_of s' tok = Expired)"
  using step_life [OF assms] .

text \<open>C27: Expired is final: once a credential has expired, no step of the server makes it registered, connected or pending again (credentials are never reused).\<close>

theorem expired_is_final:
  assumes "reachable s" and "life_of s tok = Expired" and "step e s = Some s'"
  shows "life_of s' tok = Expired"
  using step_life [OF assms(1,3), of tok] assms(2) by (auto simp: spec_trans_iff)

subsection \<open>Witnesses\<close>

lemma bob_expires_run:
  "\<exists>s s'. run (bob_in_grace @ replicate 10 Tick) init_sys = Some s \<and> reachable s \<and>
      step (TimerFire 0) s = Some s' \<and> reachable s' \<and>
      life_of s ''tB'' = Grace \<and> life_of s' ''tB'' = Expired"
proof -
  have "map_option (\<lambda>s. (life_of s ''tB'', map_option (\<lambda>s'. life_of s' ''tB'') (step (TimerFire 0) s)))
          (run (bob_in_grace @ replicate 10 Tick) init_sys) = Some (Grace, Some Expired)"
    unfolding bob_in_grace_def by code_simp
  then obtain s s' where r: "run (bob_in_grace @ replicate 10 Tick) init_sys = Some s"
    and st: "step (TimerFire 0) s = Some s'" and "life_of s ''tB'' = Grace" "life_of s' ''tB'' = Expired"
    by (auto split: option.splits)
  moreover have "reachable s" using run_reachable [OF r reachable.init] .
  moreover have "reachable s'" using reachable.step [OF \<open>reachable s\<close> st] .
  ultimately show ?thesis by blast
qed

theorem step_simulates_lifecycle_witness:
  "\<exists>s s'. reachable s \<and> step (TimerFire 0) s = Some s' \<and>
      life_of s ''tB'' = Grace \<and> life_of s' ''tB'' = Expired \<and>
      spec_trans (life_of s ''tB'') (life_of s' ''tB'')"
proof -
  obtain s s' where r: "reachable s" and st: "step (TimerFire 0) s = Some s'"
    and g: "life_of s ''tB'' = Grace" and x: "life_of s' ''tB'' = Expired"
    using bob_expires_run by blast
  have "spec_trans (life_of s ''tB'') (life_of s' ''tB'')"
    using step_simulates_lifecycle [OF r st, of "''tB''"] g by auto
  with r st g x show ?thesis by blast
qed

theorem expired_is_final_witness:
  "\<exists>s s'. reachable s \<and> life_of s ''tB'' = Expired \<and> step Tick s = Some s' \<and> life_of s' ''tB'' = Expired"
proof -
  obtain s where r: "reachable s" and x: "life_of s ''tB'' = Expired"
    using bob_expires_run by blast
  have st: "step Tick s = Some (s\<lparr>now := Suc (now s)\<rparr>)" by simp
  show ?thesis
    using r x st expired_is_final [OF r x st] by blast
qed

end
