(* ===== verification/Wire.thy ===== *)
theory Wire
  imports Registry
begin

text \<open>
  The text of a frame the outbound task sends: \<open>serde_json::to_string(&message)\<close>
  of the \<open>#[derive(Serialize)] struct Message { from, body }\<close>, wrapped in
  \<open>warp::ws::Message::text\<close>. serde_json writes a struct as a compact JSON object with
  the fields in declaration order, and a string with the escapes of its formatter:
  \<open>\"\<close> and \<open>\\\<close>, the short escapes for backspace, form feed, newline, carriage return
  and tab, \<open>\u00XX\<close> with lower-case hex digits for the other control characters, and
  every other character as it is. \<open>read_message\<close> is what a client does with the frame
  (a JSON reader for this object); the lemmas show that it recovers the message.
\<close>

subsection \<open>Writing\<close>

definition quote_ch :: char where "quote_ch = CHR 0x22"
definition bslash :: char where "bslash = CHR 0x5C"

definition hex_lower :: "nat \<Rightarrow> char" where
  "hex_lower n = ''0123456789abcdef'' ! n"

definition json_escape_char :: "char \<Rightarrow> string" where
  "json_escape_char c =
     (let n = (of_char c :: nat) in
      if n = 34 then [bslash, quote_ch]
      else if n = 92 then [bslash, bslash]
      else if n = 8 then [bslash, CHR ''b'']
      else if n = 12 then [bslash, CHR ''f'']
      else if n = 10 then [bslash, CHR ''n'']
      else if n = 13 then [bslash, CHR ''r'']
      else if n = 9 then [bslash, CHR ''t'']
      else if n < 32 then [bslash, CHR ''u'', CHR ''0'', CHR ''0'', hex_lower (n div 16), hex_lower (n mod 16)]
      else [c])"

definition json_string :: "string \<Rightarrow> string" where
  "json_string s = quote_ch # concat (map json_escape_char s) @ [quote_ch]"

definition json_message :: "message \<Rightarrow> string" where
  "json_message m =
     ''{'' @ json_string ''from'' @ '':'' @ json_string (msg_from m) @ '','' @
     json_string ''body'' @ '':'' @ json_string (msg_body m) @ ''}''"

subsection \<open>Reading\<close>

definition hex_val :: "char \<Rightarrow> nat option" where
  "hex_val c =
     (let n = (of_char c :: nat) in
      if 48 \<le> n \<and> n \<le> 57 then Some (n - 48)
      else if 97 \<le> n \<and> n \<le> 102 then Some (n - 87)
      else if 65 \<le> n \<and> n \<le> 70 then Some (n - 55)
      else None)"

text \<open>The body of a JSON string up to its closing quote: the decoded characters and
  the rest of the input.\<close>

fun read_string :: "string \<Rightarrow> (string \<times> string) option" where
  "read_string [] = None"
| "read_string (c # cs) =
     (if c = quote_ch then Some ([], cs)
      else if c = bslash then
        (case cs of
           [] \<Rightarrow> None
         | d # ds \<Rightarrow>
             if d = quote_ch \<or> d = bslash \<or> d = CHR ''/'' then map_option (apfst (Cons d)) (read_string ds)
             else if d = CHR ''b'' then map_option (apfst (Cons (CHR 0x08))) (read_string ds)
             else if d = CHR ''f'' then map_option (apfst (Cons (CHR 0x0C))) (read_string ds)
             else if d = CHR ''n'' then map_option (apfst (Cons (CHR 0x0A))) (read_string ds)
             else if d = CHR ''r'' then map_option (apfst (Cons (CHR 0x0D))) (read_string ds)
             else if d = CHR ''t'' then map_option (apfst (Cons (CHR 0x09))) (read_string ds)
             else if d = CHR ''u'' then
               (case ds of
                  a # b # x # y # rest \<Rightarrow>
                    (case (hex_val a, hex_val b, hex_val x, hex_val y) of
                       (Some va, Some vb, Some vx, Some vy) \<Rightarrow>
                         map_option (apfst (Cons (char_of (((va * 16 + vb) * 16 + vx) * 16 + vy))))
                           (read_string rest)
                     | _ \<Rightarrow> None)
                | _ \<Rightarrow> None)
             else None)
      else map_option (apfst (Cons c)) (read_string cs))"

fun strip_prefix :: "string \<Rightarrow> string \<Rightarrow> string option" where
  "strip_prefix [] s = Some s"
| "strip_prefix (p # ps) [] = None"
| "strip_prefix (p # ps) (c # cs) = (if p = c then strip_prefix ps cs else None)"

definition read_message :: "string \<Rightarrow> message option" where
  "read_message t =
     (case strip_prefix (''{'' @ json_string ''from'' @ '':'' @ [quote_ch]) t of
        None \<Rightarrow> None
      | Some r1 \<Rightarrow>
          (case read_string r1 of
             None \<Rightarrow> None
           | Some (f, r2) \<Rightarrow>
               (case strip_prefix ('','' @ json_string ''body'' @ '':'' @ [quote_ch]) r2 of
                  None \<Rightarrow> None
                | Some r3 \<Rightarrow>
                    (case read_string r3 of
                       Some (b, r4) \<Rightarrow> if r4 = ''}'' then Some \<lparr>msg_from = f, msg_body = b\<rparr> else None
                     | None \<Rightarrow> None))))"

subsection \<open>Reading back what was written\<close>

lemma hex_val_hex_lower: "k < 16 \<Longrightarrow> hex_val (hex_lower k) = Some k"
proof -
  have "\<forall>k \<in> set [0..<16]. hex_val (hex_lower k) = Some k"
    by code_simp
  then show "k < 16 \<Longrightarrow> ?thesis" by simp
qed

lemma char_eq_by_code: "(of_char c :: nat) = of_char d \<Longrightarrow> c = d"
  by (metis char_of_char)

lemma read_escape_char:
  "read_string (json_escape_char c @ xs) = map_option (apfst (Cons c)) (read_string xs)"
proof -
  define n where "n = (of_char c :: nat)"
  have esc: "json_escape_char c =
     (if n = 34 then [bslash, quote_ch]
      else if n = 92 then [bslash, bslash]
      else if n = 8 then [bslash, CHR ''b'']
      else if n = 12 then [bslash, CHR ''f'']
      else if n = 10 then [bslash, CHR ''n'']
      else if n = 13 then [bslash, CHR ''r'']
      else if n = 9 then [bslash, CHR ''t'']
      else if n < 32 then [bslash, CHR ''u'', CHR ''0'', CHR ''0'', hex_lower (n div 16), hex_lower (n mod 16)]
      else [c])"
    by (simp add: json_escape_char_def n_def Let_def)
  have lit: "c = d" if "n = of_char d" for d
    using that by (intro char_eq_by_code) (simp add: n_def)
  consider "n \<in> {34, 92, 8, 12, 10, 13, 9}"
    | "n < 32" "n \<notin> {8, 9, 10, 12, 13}" | "32 \<le> n" "n \<noteq> 34" "n \<noteq> 92"
    by force
  then show ?thesis
  proof cases
    case 1
    then have "c \<in> {CHR 0x22, CHR 0x5C, CHR 0x08, CHR 0x0C, CHR 0x0A, CHR 0x0D, CHR 0x09}"
      using lit [of "CHR 0x22"] lit [of "CHR 0x5C"] lit [of "CHR 0x08"] lit [of "CHR 0x0C"]
        lit [of "CHR 0x0A"] lit [of "CHR 0x0D"] lit [of "CHR 0x09"] by auto
    then show ?thesis
      by (auto simp: json_escape_char_def bslash_def quote_ch_def)
  next
    case 2
    then have d: "n div 16 < 16" "n mod 16 < 16" by simp_all
    have ch: "char_of ((n div 16) * 16 + n mod 16) = c"
      by (simp add: n_def)
    have h1: "hex_val (hex_lower (n div 16)) = Some (n div 16)"
      and h2: "hex_val (hex_lower (n mod 16)) = Some (n mod 16)"
      using d by (simp_all add: hex_val_hex_lower)
    have h0: "hex_val (CHR ''0'') = Some 0" by (simp add: hex_val_def)
    have cn: "char_of n = c" by (simp add: n_def)
    show ?thesis
      unfolding esc using 2 by (simp add: h0 h1 h2 ch cn bslash_def quote_ch_def)
  next
    case 3
    then have "c \<noteq> quote_ch" "c \<noteq> bslash"
      by (auto simp: n_def quote_ch_def bslash_def)
    with 3 show ?thesis unfolding esc by simp
  qed
qed

lemma read_json_string:
  "read_string (concat (map json_escape_char s) @ quote_ch # rest) = Some (s, rest)"
  by (induction s) (simp_all add: read_escape_char)

lemma strip_prefix_append [simp]: "strip_prefix p (p @ xs) = Some xs"
  by (induction p) simp_all

lemma json_message_split:
  "json_message m =
     (''{'' @ json_string ''from'' @ '':'' @ [quote_ch]) @
     concat (map json_escape_char (msg_from m)) @ quote_ch #
     ('','' @ json_string ''body'' @ '':'' @ [quote_ch]) @
     concat (map json_escape_char (msg_body m)) @ quote_ch # ''}''"
  by (simp add: json_message_def json_string_def)

subsection \<open>Round trip\<close>

text \<open>C28: A client that reads the text of a frame as JSON gets back exactly the message that was sent: its sender's name and its body, whatever characters they contain.\<close>

theorem read_json_message: "read_message (json_message m) = Some m"
proof -
  have "read_message (json_message m) = Some \<lparr>msg_from = msg_from m, msg_body = msg_body m\<rparr>"
    unfolding read_message_def json_message_split
    by (simp only: strip_prefix_append read_json_string option.case prod.case) simp
  then show ?thesis by simp
qed

end
