(* ===== verification/Uuid.thy ===== *)
theory Uuid
  imports Wire "HOL-Library.Word"
begin

text \<open>
  The credential \<open>handle_registration\<close> hands out (\<open>src/src/main.rs\<close>, line 71):
  \<open>uuid::Uuid::new_v4().as_simple().to_string()\<close>. The uuid crate is a library the
  source only calls; it is modelled at its interface, on the 16 random bytes it draws.
  \<open>Uuid::new_v4\<close> (\<open>Builder::from_random_bytes\<close>) overwrites the high nibble of byte 6
  with the version 4 and the two top bits of byte 8 with the RFC 4122 variant \<open>10\<close>;
  the \<open>Simple\<close> formatter writes the 16 bytes as 32 lower-case hex digits, high nibble
  first, with the digit table \<open>hex_lower\<close> of \<open>Wire\<close>. The bytes are \<open>8 word\<close>s and the
  nibbles are read with \<open>drop_bit\<close> and \<open>take_bit\<close>. The lemmas show the format of every
  credential: its length, its digits, and the fixed version and variant digits.
\<close>

unbundle bit_operations_syntax

subsection \<open>Generation and formatting\<close>

definition uuid_new_v4 :: "8 word list \<Rightarrow> 8 word list" where
  "uuid_new_v4 bs = bs[6 := (bs ! 6 AND 0x0F) OR 0x40, 8 := (bs ! 8 AND 0x3F) OR 0x80]"

definition hex_byte :: "8 word \<Rightarrow> string" where
  "hex_byte b = [hex_lower (unat (drop_bit 4 b)), hex_lower (unat (take_bit 4 b))]"

definition simple_hex :: "8 word list \<Rightarrow> string" where
  "simple_hex bs = concat (map hex_byte bs)"

definition new_token :: "8 word list \<Rightarrow> token" where
  "new_token rnd = simple_hex (uuid_new_v4 rnd)"

subsection \<open>Nibbles and digits\<close>

lemma unat_high_nibble: "unat (drop_bit 4 (b::8 word)) = unat b div 16"
  by (simp add: drop_bit_eq_div unat_div)

lemma unat_low_nibble: "unat (take_bit 4 (b::8 word)) = unat b mod 16"
  by (simp add: take_bit_eq_mod unat_mod)

lemma nibbles_lt: "unat (drop_bit 4 (b::8 word)) < 16" "unat (take_bit 4 (b::8 word)) < 16"
proof -
  have "unat b < 256" using unsigned_less [of b] by simp
  then show "unat (drop_bit 4 b) < 16" "unat (take_bit 4 b) < 16"
    by (simp_all add: unat_high_nibble unat_low_nibble)
qed

lemma hex_lower_mem: "n < 16 \<Longrightarrow> hex_lower n \<in> set ''0123456789abcdef''"
  by (simp add: hex_lower_def del: set_simps)

lemma hex_lower_image: "hex_lower ` {..<16} \<subseteq> set ''0123456789abcdef''"
  by (rule image_subsetI) (rule hex_lower_mem, simp)

lemma set_hex_byte: "set (hex_byte b) \<subseteq> hex_lower ` {..<16}"
  by (auto simp: hex_byte_def nibbles_lt)

lemma set_simple_hex: "set (simple_hex bs) \<subseteq> set ''0123456789abcdef''"
proof -
  have "set (simple_hex bs) \<subseteq> hex_lower ` {..<16}"
    using set_hex_byte by (auto simp: simple_hex_def)
  then show ?thesis using hex_lower_image by (rule order_trans)
qed

lemma length_hex_byte [simp]: "length (hex_byte b) = 2"
  by (simp add: hex_byte_def)

lemma length_simple_hex: "length (simple_hex bs) = 2 * length bs"
  by (induction bs) (simp_all add: simple_hex_def)

lemma nth_concat_pairs:
  "(\<And>x. length (f x) = 2) \<Longrightarrow> i < length xs \<Longrightarrow> j < 2 \<Longrightarrow>
   concat (map f xs) ! (2 * i + j) = f (xs ! i) ! j"
proof (induction xs arbitrary: i)
  case Nil then show ?case by simp
next
  case (Cons x xs)
  show ?case
  proof (cases i)
    case 0 with Cons.prems show ?thesis by (simp add: nth_append)
  next
    case (Suc k)
    with Cons show ?thesis by (simp add: nth_append)
  qed
qed

lemma version_nibble: "drop_bit 4 (((b::8 word) AND 0x0F) OR 0x40) = 4"
  by (rule bit_word_eqI) (auto simp: bit_simps)

lemma variant_nibble_eq: "drop_bit 4 (((b::8 word) AND 0x3F) OR 0x80) = (drop_bit 4 b AND 3) OR 8"
  by (rule bit_word_eqI) (auto simp: bit_simps)

lemma and_3_cases: "(y::8 word) AND 3 \<in> {0, 1, 2, 3}"
proof -
  have "unat (y AND 3) \<le> 3" using word_and_le1 [of y 3] by (simp add: word_le_nat_alt)
  then have "unat (y AND 3) \<in> {0, 1, 2, 3}" by auto
  then show ?thesis by (auto simp: word_unat_eq_iff)
qed

lemma variant_nibble: "unat (drop_bit 4 (((b::8 word) AND 0x3F) OR 0x80)) \<in> {8, 9, 10, 11}"
  using and_3_cases [of "drop_bit 4 b"] unfolding variant_nibble_eq by auto

subsection \<open>The credential\<close>

text \<open>C31: Every credential handle_registration creates from 16 random bytes is 32 characters long, all lower-case hex digits, with the version digit 4 at position 12 and a variant digit 8, 9, a or b at position 16.\<close>

theorem token_format:
  assumes "length rnd = 16"
  shows "length (new_token rnd) = 32 \<and> set (new_token rnd) \<subseteq> set ''0123456789abcdef'' \<and>
         new_token rnd ! 12 = CHR ''4'' \<and> new_token rnd ! 16 \<in> set ''89ab''"
proof -
  let ?u = "uuid_new_v4 rnd"
  have len: "length ?u = 16" using assms by (simp add: uuid_new_v4_def)
  have u6: "?u ! 6 = (rnd ! 6 AND 0x0F) OR 0x40" and u8: "?u ! 8 = (rnd ! 8 AND 0x3F) OR 0x80"
    using assms by (simp_all add: uuid_new_v4_def)
  have n12: "new_token rnd ! 12 = hex_byte (?u ! 6) ! 0"
    using nth_concat_pairs [of hex_byte 6 ?u 0] len by (simp add: new_token_def simple_hex_def)
  have n16: "new_token rnd ! 16 = hex_byte (?u ! 8) ! 0"
    using nth_concat_pairs [of hex_byte 8 ?u 0] len by (simp add: new_token_def simple_hex_def)
  have "length (new_token rnd) = 32"
    using len by (simp add: new_token_def length_simple_hex)
  moreover have "set (new_token rnd) \<subseteq> set ''0123456789abcdef''"
    by (simp only: new_token_def set_simple_hex)
  moreover have "new_token rnd ! 12 = CHR ''4''"
    by (simp add: n12 u6 hex_byte_def version_nibble hex_lower_def)
  moreover have "new_token rnd ! 16 \<in> set ''89ab''"
    using variant_nibble [of "rnd ! 8"] by (auto simp: n16 u8 hex_byte_def hex_lower_def)
  ultimately show ?thesis by blast
qed

theorem token_format_witness:
  "length (replicate 16 (0xFF::8 word)) = 16 \<and>
   new_token (replicate 16 0xFF) = ''ffffffffffff4fffbfffffffffffffff'' \<and>
   new_token (replicate 16 0xFF) ! 12 = CHR ''4'' \<and> new_token (replicate 16 0xFF) ! 16 \<in> set ''89ab''"
proof -
  have "new_token (replicate 16 0xFF) = ''ffffffffffff4fffbfffffffffffffff''"
    by code_simp
  then show ?thesis using token_format [of "replicate 16 0xFF"] by simp
qed

end
