(* ===== verification/Bodies.thy ===== *)
theory Bodies
  imports Routing Uuid
begin

text \<open>
  The bodies of the JSON replies of \<open>src/src/main.rs\<close>, as \<open>warp::reply::json\<close>
  (\<open>serde_json::to_vec\<close>) writes them: the \<open>RegistrationResponse\<close> of
  \<open>handle_registration\<close>, whose two optional fields carry
  \<open>skip_serializing_if = "Option::is_none"\<close>, so an absent field is left out rather
  than written as \<open>null\<close>; the \<open>Client\<close> of \<open>handle_status\<close>, whose only serialised
  field is \<open>name\<close> (the others are \<open>serde(skip)\<close>); and the \<open>Vec<&Client>\<close> of
  \<open>handle_list_clients\<close>. serde_json writes a struct as a compact object with its
  fields in declaration order, a sequence as a compact array, and strings with the
  escapes of \<open>Wire\<close>. The readers are what a client does with a body (a JSON reader
  for these shapes); the list reader is a \<open>function\<close> whose termination rests on
  each item it reads being non-empty. The lemmas give the exact text of the
  registration replies and show that the listing can be read back.
\<close>

subsection \<open>Serialisation\<close>

text \<open>\<open>struct RegistrationResponse { token: Option<String>, error: Option<&str> }\<close>
  and the two values \<open>handle_registration\<close> builds with \<open>..Default::default()\<close>.\<close>

record registration_response =
  rr_token :: "string option"
  rr_error :: "string option"

definition registration_body :: "reg_reply \<Rightarrow> registration_response" where
  "registration_body r =
     (case r of RegOk tok \<Rightarrow> \<lparr>rr_token = Some tok, rr_error = None\<rparr>
              | NameTaken \<Rightarrow> \<lparr>rr_token = None, rr_error = Some ''The name is already taken''\<rparr>)"

text \<open>A member of an object, a list of items separated by commas, an object.\<close>

definition json_member :: "string \<Rightarrow> string \<Rightarrow> string" where
  "json_member k v = json_string k @ '':'' @ json_string v"

fun commas :: "string list \<Rightarrow> string" where
  "commas [] = []"
| "commas [x] = x"
| "commas (x # y # ys) = x @ '','' @ commas (y # ys)"

definition json_object :: "string list \<Rightarrow> string" where
  "json_object ms = ''{'' @ commas ms @ ''}''"

text \<open>The derived \<open>Serialize\<close> of \<open>RegistrationResponse\<close>: a field that is
  \<open>None\<close> is skipped.\<close>

definition ser_registration_response :: "registration_response \<Rightarrow> string" where
  "ser_registration_response r =
     json_object ((case rr_token r of Some t \<Rightarrow> [json_member ''token'' t] | None \<Rightarrow> []) @
                  (case rr_error r of Some e \<Rightarrow> [json_member ''error'' e] | None \<Rightarrow> []))"

text \<open>The derived \<open>Serialize\<close> of \<open>Client\<close>, given the one field it writes
  (\<open>client_json\<close> of \<open>Handlers\<close> extracts it), and of \<open>Vec<&Client>\<close>.\<close>

definition ser_client :: "string \<Rightarrow> string" where
  "ser_client n = json_object [json_member ''name'' n]"

definition ser_clients :: "string list \<Rightarrow> string" where
  "ser_clients ns = ''['' @ commas (map ser_client ns) @ '']''"

text \<open>The body of a reply built with \<open>warp::reply::json\<close>; the other replies are not
  JSON (an empty body, the upgrade, a static file, a rejection).\<close>

fun payload_json :: "payload \<Rightarrow> string option" where
  "payload_json (TokenJson t) = Some (ser_registration_response (registration_body (RegOk t)))"
| "payload_json (ErrorJson e) = Some (ser_registration_response \<lparr>rr_token = None, rr_error = Some e\<rparr>)"
| "payload_json (ClientJson n) = Some (ser_client n)"
| "payload_json (ClientsJson ns) = Some (ser_clients ns)"
| "payload_json _ = None"

subsection \<open>Reading\<close>

definition read_jstring :: "string \<Rightarrow> (string \<times> string) option" where
  "read_jstring s = (case s of c # r \<Rightarrow> if c = quote_ch then read_string r else None | [] \<Rightarrow> None)"

definition read_member :: "string \<Rightarrow> string \<Rightarrow> (string \<times> string) option" where
  "read_member k s = (case strip_prefix (json_string k @ '':'') s of None \<Rightarrow> None | Some r \<Rightarrow> read_jstring r)"

definition read_token_body :: "string \<Rightarrow> string option" where
  "read_token_body s =
     (case strip_prefix ''{'' s of
        None \<Rightarrow> None
      | Some r \<Rightarrow> (case read_member ''token'' r of Some (t, r') \<Rightarrow> if r' = ''}'' then Some t else None | None \<Rightarrow> None))"

function read_items :: "string \<Rightarrow> string list option" where
  "read_items s =
     (case strip_prefix ''{'' s of
        None \<Rightarrow> None
      | Some r \<Rightarrow>
          (case read_member ''name'' r of
             None \<Rightarrow> None
           | Some (n, r2) \<Rightarrow>
               if r2 = ''}]'' then Some [n]
               else if take 2 r2 = ''},'' then map_option (Cons n) (read_items (drop 2 r2))
               else None))"
  by pat_completeness auto

definition read_clients_body :: "string \<Rightarrow> string list option" where
  "read_clients_body s =
     (if s = ''[]'' then Some []
      else case strip_prefix ''['' s of None \<Rightarrow> None | Some r \<Rightarrow> read_items r)"

subsection \<open>Termination of the list reader\<close>

lemma strip_prefix_length: "strip_prefix p s = Some r \<Longrightarrow> length r + length p = length s"
  by (induction p s rule: strip_prefix.induct) (auto split: if_splits)

lemma map_option_apfst_Some:
  "map_option (apfst (Cons d)) X = Some (x, r) \<Longrightarrow> \<exists>y. X = Some (y, r)"
  by (cases X) auto

lemma bslash_ne_quote: "bslash \<noteq> quote_ch"
  by (simp add: bslash_def quote_ch_def)

lemma u_ne: "CHR ''u'' \<noteq> quote_ch" "CHR ''u'' \<noteq> bslash"
  by (simp_all add: bslash_def quote_ch_def)

lemma read_string_plain:
  "c \<noteq> bslash \<Longrightarrow> read_string (c # cs) = Some (x, r) \<Longrightarrow> r = cs \<or> (\<exists>y. read_string cs = Some (y, r))"
  by (auto split: if_split_asm dest: map_option_apfst_Some)

lemma read_string_short_escape:
  assumes "d \<noteq> CHR ''u''" and "read_string (bslash # d # ds) = Some (x, r)"
  shows "\<exists>y. read_string ds = Some (y, r)"
  using assms by (simp add: bslash_ne_quote split: if_split_asm) (blast dest: map_option_apfst_Some)+

lemma read_string_u_escape:
  assumes "read_string (bslash # CHR ''u'' # ds) = Some (x, r)"
  shows "\<exists>a b p q rest y. ds = a # b # p # q # rest \<and> read_string rest = Some (y, r)"
proof -
  have "\<exists>a b p q rest. ds = a # b # p # q # rest"
    using assms by (simp add: bslash_ne_quote u_ne split: list.split_asm)
  then obtain a b p q rest where ds: "ds = a # b # p # q # rest" by blast
  then have "\<exists>y. read_string rest = Some (y, r)"
    using assms
    by (cases "hex_val a"; cases "hex_val b"; cases "hex_val p"; cases "hex_val q")
       (auto simp: bslash_ne_quote u_ne dest: map_option_apfst_Some)
  with ds show ?thesis by blast
qed

lemma read_string_length: "read_string s = Some (x, r) \<Longrightarrow> length r < length s"
proof (induction "length s" arbitrary: s x rule: less_induct)
  case less
  then obtain c cs where s: "s = c # cs" by (cases s) auto
  show ?case
  proof (cases "c = bslash")
    case False
    with read_string_plain [OF False less.prems [unfolded s]] less.hyps s show ?thesis
      by fastforce
  next
    case True
    then obtain d ds where cs: "cs = d # ds"
      using less.prems s bslash_ne_quote by (cases cs) auto
    show ?thesis
    proof (cases "d = CHR ''u''")
      case False
      from less.prems s cs True have "read_string (bslash # d # ds) = Some (x, r)" by simp
      then obtain y where "read_string ds = Some (y, r)"
        using read_string_short_escape [OF False] by blast
      then have "length r < length ds" using less.hyps [of ds y] s cs by simp
      with s cs show ?thesis by simp
    next
      case u: True
      from read_string_u_escape less.prems s cs True u
      obtain a b p q rest y where "ds = a # b # p # q # rest" "read_string rest = Some (y, r)"
        by blast
      then have "length r < length rest" using less.hyps [of rest y] s cs by simp
      with s cs \<open>ds = a # b # p # q # rest\<close> show ?thesis by simp
    qed
  qed
qed
lemma read_member_length: "read_member k s = Some (x, r) \<Longrightarrow> length r < length s"
  by (auto simp: read_member_def read_jstring_def split: option.splits list.splits if_splits
      dest!: strip_prefix_length read_string_length)

termination read_items
  by (relation "measure length") (auto dest!: strip_prefix_length read_member_length)

declare read_items.simps [simp del]

subsection \<open>Round trips\<close>

lemma read_jstring_json_string [simp]: "read_jstring (json_string v @ rest) = Some (v, rest)"
  by (simp add: read_jstring_def json_string_def read_json_string)

lemma read_member_json_member [simp]: "read_member k (json_member k v @ rest) = Some (v, rest)"
proof -
  have "json_member k v @ rest = (json_string k @ '':'') @ (json_string v @ rest)"
    by (simp add: json_member_def)
  then show ?thesis
    by (simp only: read_member_def strip_prefix_append option.case read_jstring_json_string)
qed

lemma ser_client_split: "ser_client n = CHR ''{'' # json_member ''name'' n @ ''}''"
  by (simp add: ser_client_def json_object_def)

lemma read_items_last: "read_items (ser_client n @ '']'') = Some [n]"
  by (subst read_items.simps) (simp add: ser_client_split)

lemma read_items_more: "read_items (ser_client n @ CHR '','' # rest) = map_option (Cons n) (read_items rest)"
  by (subst read_items.simps) (simp add: ser_client_split)

lemma read_items_ser:
  "ns \<noteq> [] \<Longrightarrow> read_items (commas (map ser_client ns) @ '']'') = Some ns"
proof (induction ns rule: induct_list012)
  case (2 n)
  show ?case by (simp add: read_items_last)
next
  case (3 n m ms)
  then show ?case by (simp add: read_items_more)
qed simp

lemma commas_Cons_ne: "x \<noteq> [] \<Longrightarrow> commas (x # xs) \<noteq> []"
  by (cases xs) simp_all

lemma commas_map_ser_client: "ns \<noteq> [] \<Longrightarrow> commas (map ser_client ns) \<noteq> []"
  by (cases ns) (simp_all add: commas_Cons_ne ser_client_split)

lemma clients_roundtrip: "read_clients_body (ser_clients ns) = Some ns"
  by (cases "ns = []")
     (simp_all add: read_clients_body_def ser_clients_def read_items_ser commas_map_ser_client)

lemma read_token_body_ser: "read_token_body (ser_registration_response (registration_body (RegOk t))) = Some t"
proof -
  have "ser_registration_response (registration_body (RegOk t)) = ''{'' @ json_member ''token'' t @ ''}''"
    by (simp add: ser_registration_response_def registration_body_def json_object_def)
  then show ?thesis by (simp add: read_token_body_def)
qed

lemma escape_hex_digits: "\<forall>c \<in> set ''0123456789abcdef''. json_escape_char c = [c]"
  by (simp add: json_escape_char_def)

lemma json_string_hex:
  "set s \<subseteq> set ''0123456789abcdef'' \<Longrightarrow> json_string s = quote_ch # s @ [quote_ch]"
proof -
  assume "set s \<subseteq> set ''0123456789abcdef''"
  then have "concat (map json_escape_char s) = s"
    using escape_hex_digits by (induction s) auto
  then show ?thesis by (simp add: json_string_def)
qed

lemma serve_clients:
  assumes "path_is ''clients'' rq" and "method_is GET rq"
  shows "serve tok files rq w = ((200, ClientsJson (handle_list_clients w)), w)"
proof -
  have "\<not> path_is ''register'' rq \<and> \<not> path_is ''messages'' rq \<and>
                 \<not> path_is ''send_message'' rq \<and> \<not> path_is ''status'' rq"
    using assms(1) by (simp add: path_is_unique)
  then show ?thesis
    using assms by (simp add: serve_get_post routes_def list_route_def)
qed

subsection \<open>The bodies the server sends\<close>

text \<open>C30: Over HTTP, GET /clients is answered 200 with a JSON array whose reading gives back exactly the display names of the registry, in its iteration order, whatever characters they contain; the response does not change the state.\<close>

theorem clients_body_roundtrip:
  assumes "path_is ''clients'' rq" and "method_is GET rq"
  shows "\<exists>p. serve tok files rq w = ((200, p), w) \<and>
             Option.bind (payload_json p) read_clients_body = Some (map (name \<circ> snd) (clients w))"
proof -
  have "Option.bind (payload_json (ClientsJson (handle_list_clients w))) read_clients_body =
        Some (map (name \<circ> snd) (clients w))"
    by (simp add: clients_roundtrip handle_list_clients_def client_json_def comp_def)
  then show ?thesis using serve_clients [OF assms] by blast
qed

text \<open>C29: The body of the reply to a well-formed POST /register with the credential drawn from the random bytes rnd: when the name is taken, 406 with exactly {"error":"The name is already taken"} (the token member skipped) and no change of state; otherwise 200 with exactly {"token":"<the credential>"} (the error member skipped, the hex digits written without escapes), from which a JSON reader gets the credential back.\<close>

theorem registration_body_text:
  assumes "path_is ''register'' rq" and "method_is POST rq" and "json_body [''name''] rq = Inr [n]"
  shows \<open>case serve (new_token rnd) files rq w of ((st, p), w') \<Rightarrow>
           (if reg_check (clients w) n
            then st = 406 \<and> payload_json p = Some ''{"error":"The name is already taken"}'' \<and> w' = w
            else st = 200 \<and> payload_json p = Some (''{"token":"'' @ new_token rnd @ ''"}'') \<and>
                 Option.bind (payload_json p) read_token_body = Some (new_token rnd))\<close>
proof -
  have err: \<open>ser_registration_response \<lparr>rr_token = None, rr_error = Some ''The name is already taken''\<rparr> =
             ''{"error":"The name is already taken"}''\<close>
    by code_simp
  have hex: "json_string (new_token rnd) = quote_ch # new_token rnd @ [quote_ch]"
    by (rule json_string_hex) (simp only: new_token_def set_simple_hex)
  have ok: \<open>ser_registration_response (registration_body (RegOk (new_token rnd))) =
            ''{"token":"'' @ new_token rnd @ ''"}''\<close>
    by (simp add: ser_registration_response_def registration_body_def json_object_def json_member_def
        hex) (simp add: json_string_def json_escape_char_def quote_ch_def)
  show ?thesis
    using err ok read_token_body_ser [of "new_token rnd"]
    by (simp add: serve_registration [OF assms] handle_registration_def reg_response_def)
qed

subsection \<open>Witnesses\<close>

theorem clients_body_roundtrip_witness:
  "path_is ''clients'' (plain GET [''clients'']) \<and> method_is GET (plain GET [''clients'']) \<and>
   (\<exists>p. serve ''t9'' [] (plain GET [''clients'']) demo_world = ((200, p), demo_world) \<and>
        Option.bind (payload_json p) read_clients_body = Some [''Alice'', ''Bob''])"
proof -
  have rq: "path_is ''clients'' (plain GET [''clients''])" "method_is GET (plain GET [''clients''])"
    by (simp_all add: plain_def path_is_def method_is_def)
  have "map (name \<circ> snd) (clients demo_world) = [''Alice'', ''Bob'']"
    by (simp add: demo_world_def demo_clients_def)
  then show ?thesis
    using rq clients_body_roundtrip [OF rq, where tok = "''t9''" and files = "[]" and w = demo_world] by simp
qed

theorem registration_body_text_witness:
  \<open>path_is ''register'' (post_json [''register''] [(''name'', ''Carol'')]) \<and>
   method_is POST (post_json [''register''] [(''name'', ''Carol'')]) \<and>
   json_body [''name''] (post_json [''register''] [(''name'', ''Carol'')]) = Inr [''Carol''] \<and>
   payload_json (snd (fst (serve (new_token (replicate 16 0xFF)) [] (post_json [''register''] [(''name'', ''Carol'')])
     demo_world))) = Some ''{"token":"ffffffffffff4fffbfffffffffffffff"}''\<close>
proof -
  let ?rq = "post_json [''register''] [(''name'', ''Carol'')]"
  have rq: "path_is ''register'' ?rq" "method_is POST ?rq" "json_body [''name''] ?rq = Inr [''Carol'']"
    by (simp_all add: post_json_def plain_def path_is_def method_is_def json_body_def
        decode_fields_def obj_field_def)
  have free: "\<not> reg_check (clients demo_world) ''Carol''"
    by code_simp
  have tok: "new_token (replicate 16 0xFF) = ''ffffffffffff4fffbfffffffffffffff''"
    by code_simp
  show ?thesis
    using rq free registration_body_text [OF rq, where rnd = "replicate 16 0xFF" and files = "[]" and w = demo_world]
    by (simp add: tok split: prod.splits)
qed

end
