(* ===== verification/Spec2Isabelle.thy ===== *)
theory Spec2Isabelle
  imports Server Routing Registry_Spec Progress Lifecycle Wire Uuid Bodies
begin

text \<open>
  \<^bold>\<open>A verification model of chat-rs (\<open>src/src/main.rs\<close>).\<close>

  The program is a warp/tokio server. One shared registry, a \<open>HashMap<String, Client>\<close>
  behind a tokio \<open>Mutex\<close> and keyed by the lower-cased display name, is read and written
  by five HTTP handlers and by the lifecycle of each websocket connection:
  \<^item> \<open>handle_registration\<close> checks the name, draws a token with \<open>Uuid::new_v4\<close> and
    inserts a \<open>Client\<close>; the check and the insert take the lock separately;
  \<^item> \<open>ws_handler\<close> upgrades a connection when some client has the token;
    \<open>client_connected\<close> then attaches a fresh channel sender to the client (aborting
    its disconnect timer), runs an outbound pump from the channel to the socket, waits
    for the socket to close, and spawns a 10 second eviction task that removes the
    client unless aborted by a later attach;
  \<^item> \<open>handle_send_message\<close> looks up the recipient by name, the sender by token, and
    pushes \<open>{from, body}\<close> into the recipient's channel;
  \<^item> \<open>handle_status\<close> and \<open>handle_list_clients\<close> serialise clients, name only.

  \<^bold>\<open>Library layout.\<close>
  \<^item> \<open>Prelude\<close>: type names (\<open>token\<close>, \<open>chan_id\<close>, \<open>task_id\<close>), the collections
    \<open>handler_defs\<close> and \<open>wf_preserve\<close>, and lemmas on first-match update
    (\<open>map_first\<close>, the model of \<open>iter_mut().find\<close>), \<open>find\<close>, \<open>remove1\<close> and
    association lists.
  \<^item> \<open>Registry\<close>: \<open>Client\<close> and \<open>Message\<close> as records, ASCII \<open>to_lowercase\<close>, the
    map as an association list in iteration order, the map operations of the code
    (\<open>contains_key\<close>, \<open>hm_insert\<close>, \<open>find_by_token\<close>, \<open>any_token\<close>,
    \<open>update_by_token\<close>, \<open>retain_token\<close>) and the invariant \<open>clients_wf\<close> (unique keys,
    key = lower-cased name, unique tokens) with its preservation lemmas. Under the
    invariant the result of \<open>iter().find\<close> by token does not depend on the iteration
    order (\<open>find_by_token_wf\<close>).
  \<^item> \<open>Runtime\<close>: the tokio interface the code uses, timer tasks with \<open>abort\<close>,
    unbounded channels as queues, a clock in seconds, and the shared state \<open>world\<close>.
  \<^item> \<open>Handlers\<close>: one definition per critical section (\<open>reg_check\<close>,
    \<open>reg_insert\<close>, \<open>handle_registration\<close>, \<open>ws_handler\<close>, \<open>cc_attach\<close>,
    \<open>cc_detach\<close>, \<open>timer_body\<close>, \<open>handle_send_message\<close>, \<open>handle_status\<close>,
    \<open>handle_list_clients\<close>), the world invariant \<open>world_wf\<close>, its preservation by every
    section, and the functional behaviour of each handler on every branch.
  \<^item> \<open>Server\<close>: the concurrent server as a state machine. \<open>event\<close> has one
    constructor per critical section and per move of the environment; \<open>step\<close> is
    executable, \<open>run\<close> executes a schedule, \<open>reachable\<close> is inductive; \<open>sys_inv\<close>
    holds in every reachable state (\<open>reachable_inv\<close>, by rule induction over one
    lemma per event).
  \<^item> \<open>Routing\<close>: the route table of \<open>main\<close> at warp's interface. A request is its
    method, path segments, content type, parsed JSON body and the handshake and CORS
    headers; each \<open>*_route\<close> is one handler filter (path, method, argument extraction,
    then the handler of \<open>Handlers\<close>), \<open>or_route\<close> is \<open>Filter::or\<close>, \<open>routes\<close> the
    chain in the order of the code, \<open>cors_check\<close> the CORS wrapper and \<open>serve\<close> one
    request served end to end. Rejections are lists of warp's known rejections, and
    \<open>reject_response\<close> is the status warp answers (its preference order: 405 below every
    other known rejection, \<open>not_found\<close> below all). The lemmas show which route answers
    which request, the range of statuses, and the HTTP answers of each endpoint. An
    accepted websocket upgrade is answered 101 here without writing the registry; the
    writes of \<open>client_connected\<close> that follow it are the \<open>Attach\<close> and \<open>Detach\<close> steps
    of \<open>Server\<close>.
  \<^item> \<open>Registry_Spec\<close>: the registry of the specification (section 4.1) as an
    abstract map from normalised name to display name and credential, with
    \<open>spec_register\<close> and \<open>spec_remove\<close>; \<open>abs_reg\<close> forgets order and handles. The
    handlers refine the abstract operations (\<open>registration_refines\<close>,
    \<open>timer_body_refines\<close>, \<open>status_refines_find_by_credential\<close>), and every server
    step leaves the abstract registry alone, inserts without a name check, or removes
    one credential (\<open>step_refines_registry\<close>).
  \<^item> \<open>Progress\<close>: termination and progress of the background tasks: the outbound
    pump drains a backlog of n messages in n iterations in order and then waits; every
    sleeping eviction deadline is at most \<open>grace_period\<close> ahead of the clock in every
    reachable state; hence a sleeping eviction task can fire after \<open>grace_period\<close>
    ticks. The pump loop may wait forever for its next message, so it is stated with an
    explicit number of iterations rather than as a total function.
  \<^item> \<open>Lifecycle\<close>: the specification's per-client state machine (section 4.4) as the
    inductive relation \<open>spec_trans\<close> on \<open>life\<close>, the abstraction \<open>life_of\<close> of a
    server state to the state of one credential, the handle invariant \<open>life_inv\<close>
    (proved for all reachable states by rule induction), and the simulation theorem:
    each step follows \<open>spec_trans\<close> except for the two deviations the findings
    describe (a stale eviction task, an overwriting registration). Expired is final.
  \<^item> \<open>Wire\<close>: the text of a frame, \<open>serde_json::to_string\<close> of a \<open>Message\<close>
    (a compact object, fields in declaration order, serde_json's string escapes), and a
    JSON reader for it; reading a frame gives back the message (\<open>read_json_message\<close>).
  \<^item> \<open>Uuid\<close>: the credential of \<open>handle_registration\<close> (\<open>main.rs\<close> line 71),
    \<open>Uuid::new_v4().as_simple().to_string()\<close> as \<open>new_token\<close> on the 16 random bytes
    (\<open>8 word\<close>s) the generator draws: the version and variant bits set with \<open>AND\<close>/\<open>OR\<close>,
    each byte written as two lower-case hex digits. \<open>token_format\<close> gives the shape of
    every credential (32 hex digits, version digit 4, variant digit 8 to b).
  \<^item> \<open>Bodies\<close>: the JSON reply bodies \<open>warp::reply::json\<close> writes, the derived
    \<open>Serialize\<close> of \<open>RegistrationResponse\<close> (fields with \<open>skip_serializing_if\<close>),
    of \<open>Client\<close> (only \<open>name\<close>) and of \<open>Vec<&Client>\<close>, with a client's reader for
    them (\<open>read_items\<close>, a \<open>function\<close> with a termination proof). It gives the exact
    text of both registration replies over HTTP (\<open>registration_body_text\<close>, where
    the credential of \<open>Uuid\<close> needs no escapes) and shows that the body of GET
    /clients reads back as the registry's names (\<open>clients_body_roundtrip\<close>).
  \<^item> this theory: properties that span the components, stated over arbitrary (mostly
    reachable) states of \<open>Server\<close> and schedules of its steps: the registry invariant,
    the registration race, delivery of an accepted message to an open connection, how
    tokens leave the registry, the race between the upgrade check of \<open>ws_handler\<close>
    and the attach of \<open>client_connected\<close>, a stale eviction task that removes a client
    with a live connection, a message accepted during the grace period and then lost,
    and a reconnection within the grace period that keeps the client. The scenarios of
    the specification (Alice and Bob) are the witnesses of these theorems.

  \<^bold>\<open>Modelling choices.\<close> The mutex makes each critical section atomic, so an
  execution is an interleaving of \<open>step\<close>s; nothing else is shared. Generated tokens are
  inputs of the server model (their format is the theory \<open>Uuid\<close>, on the random bytes
  as input), and the model excludes a repeated UUID (the ghost list
  \<open>issued\<close>). Time advances by \<open>Tick\<close> in whole seconds; an eviction task may run its
  body once the clock reached its deadline (spawn time + \<open>grace_period\<close> = 10). The
  \<open>HashMap\<close> iteration order is the list order of the association list. Case folding is
  ASCII only.

  In \<open>Routing\<close> the contents of \<open>static/\<close> are a parameter (the paths that name a
  file there), a JSON value is a string or "something else" (the request types have
  string fields only), and the websocket handshake headers are one flag.

  \<^bold>\<open>Not modelled.\<close> Everything that remains lies below the interface of a
  library the program only calls, with no code of the program's own in it, so it
  cannot be modelled from the repository:
  \<^item> the listen socket and the startup message of \<open>main\<close> (lines 262-263:
    \<open>println!\<close> and \<open>warp::serve(..).run(..)\<close>), which are pure I/O;
  \<^item> HTTP parsing and websocket framing (hyper, tungstenite): a request enters the
    model as the parts the filters read, and a frame counts as sent when it reached
    the peer's list of frames;
  \<^item> the byte-level JSON syntax of request bodies (serde_json's parser): a body enters
    the model as a parsed value or as malformed, and the derived deserialisation of
    the request structs is modelled from there;
  \<^item> the contents of \<open>static/\<close> (a parameter of \<open>static_route\<close>);
  \<^item> the operating system's random number generator behind \<open>Uuid::new_v4\<close>: its 16
    bytes are an input of \<open>new_token\<close>, and the server model takes fresh credentials
    as inputs.
  The components that touch these libraries (transport, JSON, runtime and uuid) are
  therefore modelled at the library's interface only.
\<close>

subsection \<open>Schedules from the specification's scenarios\<close>

text \<open>Alice and Bob register (tokens \<open>tA\<close>, \<open>tB\<close>) and Bob opens a connection.\<close>

definition alice_bob_connected :: "event list" where
  "alice_bob_connected =
     [RegCheck ''Alice'' ''tA'', RegCommit ''Alice'' ''tA'', RegCheck ''Bob'' ''tB'', RegCommit ''Bob'' ''tB'',
      WsUpgrade ''tB'', Attach 0]"

text \<open>Bob registers, connects, loses the connection and is detached at time 0.\<close>

definition bob_detached :: "event list" where
  "bob_detached =
     [RegCheck ''Bob'' ''tB'', RegCommit ''Bob'' ''tB'', WsUpgrade ''tB'', Attach 0, PeerClose 0, Detach 0]"

text \<open>Bob reconnects (connection 1) before the server noticed that connection 0 dropped;
  then connection 0's peer is gone, and its inbound loop has ended.\<close>

definition bob_overlapping :: "event list" where
  "bob_overlapping =
     [RegCheck ''Bob'' ''tB'', RegCommit ''Bob'' ''tB'', WsUpgrade ''tB'', Attach 0,
      WsUpgrade ''tB'', Attach 1, PeerClose 0]"

subsection \<open>Properties across the components\<close>

text \<open>C1: In every reachable state of the server the registry keys are unique, each key is
  the lower-cased display name of its client, tokens are unique, and every stored sender
  and timer handle refers to an existing channel and to a task spawned for that client's
  token.\<close>

theorem reachable_registry_wf:
  assumes "reachable s"
  shows "distinct (map fst (clients s)) \<and>
         (\<forall>(k, c) \<in> set (clients s). k = to_lowercase (name c)) \<and>
         distinct (tokens (clients s)) \<and>
         (\<forall>e \<in> set (clients s). ptrs_ok s (snd e))"
  using reachable_inv [OF assms] by (simp add: sys_inv_def world_wf_def clients_wf_def)

theorem reachable_registry_wf_witness:
  "reachable init_sys \<and> distinct (map fst (clients init_sys)) \<and> distinct (tokens (clients init_sys))"
  using reachable.init reachable_registry_wf [OF reachable.init] by simp

text \<open>C2: Registration is not atomic. Whenever a name is free, two registrations whose
  names fold to the same lower-case key can interleave their check and insert sections so
  that both are answered 200 with a token; the first token is then orphaned (status
  rejects it) and only the second client stays registered.\<close>

theorem registration_race:
  assumes inv: "sys_inv s" and free: "\<not> reg_check (clients s) n1"
    and lc: "to_lowercase n2 = to_lowercase n1"
    and f1: "t1 \<notin> set (issued s)" and f2: "t2 \<notin> set (issued s)" and ne: "t1 \<noteq> t2"
  shows "\<exists>s'. run [RegCheck n1 t1, RegCheck n2 t2, RegCommit n1 t1, RegCommit n2 t2] s = Some s' \<and>
              replies s' = replies s @ [RegOk t1, RegOk t2] \<and>
              handle_status t1 s' = None \<and> handle_status t2 s' = Some n2"
proof -
  have free2: "\<not> reg_check (clients s) n2"
    using free lc by (simp add: reg_check_def)
  have ne': "(n2, t2) \<noteq> (n1, t1)" using ne by simp
  obtain s' where run: "run [RegCheck n1 t1, RegCheck n2 t2, RegCommit n1 t1, RegCommit n2 t2] s = Some s'"
    and cl: "clients s' = reg_insert n2 t2 (clients s)"
    and rp: "replies s' = replies s @ [RegOk t1, RegOk t2]"
    using free free2 f1 f2 ne ne' lc by (simp add: reg_insert_same_key)
  have wf: "clients_wf (clients s)" and tk: "set (tokens (clients s)) \<subseteq> set (issued s)"
    using inv by (simp_all add: sys_inv_def world_wf_def)
  have f2': "t2 \<notin> set (tokens (clients s))" and f1': "t1 \<notin> set (tokens (clients s))"
    using tk f1 f2 by auto
  have wf': "clients_wf (clients s')"
    using wf f2' by (simp add: cl reg_insert_def clients_wf_insert)
  have "t1 \<notin> set (tokens (clients s'))"
    using set_tokens_insert [of "to_lowercase n2" "new_client n2 t2" "clients s"] f1' ne
    by (auto simp: cl reg_insert_def new_client_def)
  then have st1: "handle_status t1 s' = None"
    by (simp add: handle_status_def find_by_token_None)
  have "(to_lowercase n2, new_client n2 t2) \<in> set (clients s')"
    by (simp add: cl reg_insert_def hm_insert_def in_set_update_new)
  then have "find_by_token (clients s') t2 = Some (to_lowercase n2, new_client n2 t2)"
    using find_by_token_wf [OF wf'] by (simp add: new_client_def)
  then have st2: "handle_status t2 s' = Some n2"
    by (simp add: handle_status_def client_json_def new_client_def)
  from run rp st1 st2 show ?thesis by blast
qed

theorem registration_race_witness:
  "\<exists>s'. run [RegCheck ''Alice'' ''t1'', RegCheck ''alice'' ''t2'', RegCommit ''Alice'' ''t1'',
             RegCommit ''alice'' ''t2''] init_sys = Some s' \<and>
        replies s' = [RegOk ''t1'', RegOk ''t2''] \<and>
        handle_status ''t1'' s' = None \<and> handle_status ''t2'' s' = Some ''alice''"
proof -
  have free: "\<not> reg_check (clients init_sys) ''Alice''"
    by (simp add: init_sys_def reg_check_def contains_key_def)
  have lc: "to_lowercase ''alice'' = to_lowercase ''Alice''" by simp
  have f: "''t1'' \<notin> set (issued init_sys)" "''t2'' \<notin> set (issued init_sys)"
    by (simp_all add: init_sys_def)
  show ?thesis
    using registration_race [OF init_inv free lc f] by (simp add: init_sys_def)
qed

lemma send_then_drain:
  assumes "reachable s" and "i < length (conns s)"
    and "map_of (clients s) (to_lowercase to) = Some rc" and "tx rc = Some (c_chan (conns s ! i))"
    and "find_by_token (clients s) tok = Some (k, sc)"
  shows "fst (handle_send_message tok to b s) = Sent \<and>
         run (SendMessage tok to b # replicate (Suc (length (chans s ! c_chan (conns s ! i)))) (Pump i)) s =
           Some (s\<lparr>chans := (chans s)[c_chan (conns s ! i) := []],
                   conns := (if c_phase (conns s ! i) = Open
                             then (conns s)[i := (conns s ! i)\<lparr>c_frames := c_frames (conns s ! i) @
                                    chans s ! c_chan (conns s ! i) @ [\<lparr>msg_from = name sc, msg_body = b\<rparr>]\<rparr>]
                             else conns s)\<rparr>)"
proof -
  let ?ch = "c_chan (conns s ! i)"
  let ?m = "\<lparr>msg_from = name sc, msg_body = b\<rparr>"
  have ch: "?ch < length (chans s)"
    using sys_inv_D(2) [OF reachable_inv [OF assms(1)]] assms(2) by simp
  define s1 where "s1 = s\<lparr>chans := (chans s)[?ch := chans s ! ?ch @ [?m]]\<rparr>"
  have sent: "handle_send_message tok to b s = (Sent, s1)"
    using assms(3-5) ch by (simp add: handle_send_message_def chan_send_def s1_def)
  have s1: "conns s1 = conns s" "?ch < length (chans s1)" "chans s1 ! ?ch = chans s ! ?ch @ [?m]"
    using ch by (simp_all add: s1_def)
  have "Suc (length (chans s ! ?ch)) = length (chans s1 ! ?ch)" using s1(3) by simp
  moreover have "run (replicate (length (chans s1 ! ?ch)) (Pump i)) s1 =
      Some (s1\<lparr>chans := (chans s1)[?ch := []],
               conns := (if c_phase (conns s1 ! i) = Open
                         then (conns s1)[i := (conns s1 ! i)\<lparr>c_frames := c_frames (conns s1 ! i) @ chans s1 ! ?ch\<rparr>]
                         else conns s1)\<rparr>)"
    using pump_drain [of i s1 ?ch "chans s1 ! ?ch"] assms(2) s1 by simp
  ultimately show ?thesis
    using sent s1 by (simp add: s1_def)
qed

text \<open>C8: Delivery in general: in every reachable state, when a recipient's stored sender half is that of an open connection and the sender's token is registered, a message sent to the recipient's name is accepted and, after as many iterations of the connection's outbound task as there are messages in its queue, reaches the peer as the last frame, after the messages queued before it; the task then waits.\<close>

theorem send_then_pump_delivers:
  assumes "reachable s" and "i < length (conns s)" and "c_phase (conns s ! i) = Open"
    and "map_of (clients s) (to_lowercase to) = Some rc" and "tx rc = Some (c_chan (conns s ! i))"
    and "find_by_token (clients s) tok = Some (k, sc)"
  shows "\<exists>s'. run (SendMessage tok to b # replicate (Suc (length (chans s ! c_chan (conns s ! i)))) (Pump i)) s = Some s' \<and>
             c_frames (conns s' ! i) =
               c_frames (conns s ! i) @ chans s ! c_chan (conns s ! i) @ [\<lparr>msg_from = name sc, msg_body = b\<rparr>] \<and>
             pump i s' = None"
proof -
  let ?ch = "c_chan (conns s ! i)"
  define s' where "s' = s\<lparr>chans := (chans s)[?ch := []],
                  conns := (conns s)[i := (conns s ! i)\<lparr>c_frames := c_frames (conns s ! i) @
                             chans s ! ?ch @ [\<lparr>msg_from = name sc, msg_body = b\<rparr>]\<rparr>]\<rparr>"
  have r: "run (SendMessage tok to b # replicate (Suc (length (chans s ! ?ch))) (Pump i)) s = Some s'"
    using conjunct2 [OF send_then_drain [OF assms(1,2,4,5,6)]] assms(3)
    by (simp only: s'_def simp_thms if_True)
  have "c_frames (conns s' ! i) = c_frames (conns s ! i) @ chans s ! ?ch @ [\<lparr>msg_from = name sc, msg_body = b\<rparr>]"
    "pump i s' = None"
    using assms(2) sys_inv_D(2) [OF reachable_inv [OF assms(1)]] by (simp_all add: s'_def pump_empty)
  with r show ?thesis by blast
qed

theorem send_then_pump_delivers_witness:
  "\<exists>s'. run (SendMessage ''tA'' ''bob'' ''hi'' # replicate 1 (Pump 0)) (the (run alice_bob_connected init_sys)) = Some s' \<and>
        c_frames (conns s' ! 0) = [\<lparr>msg_from = ''Alice'', msg_body = ''hi''\<rparr>] \<and> pump 0 s' = None"
proof -
  let ?s = "the (run alice_bob_connected init_sys)"
  let ?rc = "\<lparr>name = ''Bob'', token = ''tB'', disconnect_timer = None, tx = Some 0\<rparr>"
  let ?sc = "\<lparr>name = ''Alice'', token = ''tA'', disconnect_timer = None, tx = None\<rparr>"
  have r: "run alice_bob_connected init_sys = Some ?s"
    unfolding alice_bob_connected_def by code_simp
  have facts: "0 < length (conns ?s)" "c_phase (conns ?s ! 0) = Open" "c_chan (conns ?s ! 0) = 0"
    "chans ?s ! 0 = []" "c_frames (conns ?s ! 0) = []"
    "map_of (clients ?s) (to_lowercase ''bob'') = Some ?rc"
    "find_by_token (clients ?s) ''tA'' = Some (''alice'', ?sc)"
    unfolding alice_bob_connected_def by code_simp+
  have "tx ?rc = Some (c_chan (conns ?s ! 0))" using facts(3) by simp
  from send_then_pump_delivers [OF run_reachable [OF r reachable.init] facts(1,2,6) this facts(7), of "''hi''"]
  show ?thesis using facts(3-5) by simp
qed

text \<open>C9: A step removes a registered token from the registry only in two ways: the
  eviction task of that token runs after its deadline, or a registration commit overwrites
  the entry under the same lower-case key (the registration race).\<close>

theorem token_removed_only_by_timer_or_overwrite:
  assumes st: "step e s = Some s'"
    and inn: "tok \<in> set (tokens (clients s))" and out: "tok \<notin> set (tokens (clients s'))"
  shows "(\<exists>t d. e = TimerFire t \<and> t < length (timers s) \<and> tm_token (timers s ! t) = tok \<and>
                tm_state (timers s ! t) = Sleeping d \<and> d \<le> now s) \<or>
         (\<exists>n tok'. e = RegCommit n tok' \<and>
                (\<exists>c. map_of (clients s) (to_lowercase n) = Some c \<and> token c = tok))"
proof (cases "\<exists>n tok'. e = RegCommit n tok'")
  case True
  then obtain n tok' where e: "e = RegCommit n tok'" by blast
  with st have "clients s' = hm_insert (to_lowercase n) (new_client n tok') (clients s)"
    by (auto simp: reg_insert_def split: if_splits)
  with inn out have "\<exists>c. map_of (clients s) (to_lowercase n) = Some c \<and> token c = tok"
    using tokens_insert_removed by metis
  with e show ?thesis by blast
next
  case notc: False
  show ?thesis
  proof (cases "\<exists>t. e = TimerFire t")
    case True
    then obtain t where e: "e = TimerFire t" by blast
    with st obtain d where t: "t < length (timers s)" and sl: "tm_state (timers s ! t) = Sleeping d"
      and d: "d \<le> now s"
      and s': "s' = timer_body (tm_token (timers s ! t))
                      (s\<lparr>timers := (timers s)[t := (timers s ! t)\<lparr>tm_state := Fired\<rparr>]\<rparr>)"
      by (auto simp: fire_timer_def split: if_splits timer_state.splits)
    have "tm_token (timers s ! t) = tok"
      using inn out by (auto simp: s' timer_body_def)
    with e t sl d show ?thesis by blast
  next
    case False
    with notc st have "tokens (clients s') = tokens (clients s)"
      by (intro step_tokens_same) auto
    with inn out show ?thesis by simp
  qed
qed

theorem token_removed_only_by_timer_or_overwrite_witness:
  "step (TimerFire 0) (the (run (bob_detached @ replicate 10 Tick) init_sys)) =
     Some (the (run (bob_detached @ replicate 10 Tick @ [TimerFire 0]) init_sys)) \<and>
   ''tB'' \<in> set (tokens (clients (the (run (bob_detached @ replicate 10 Tick) init_sys)))) \<and>
   ''tB'' \<notin> set (tokens (clients (the (run (bob_detached @ replicate 10 Tick @ [TimerFire 0]) init_sys)))) \<and>
   tm_token (timers (the (run (bob_detached @ replicate 10 Tick) init_sys)) ! 0) = ''tB''"
proof -
  let ?s = "the (run (bob_detached @ replicate 10 Tick) init_sys)"
  let ?s' = "the (run (bob_detached @ replicate 10 Tick @ [TimerFire 0]) init_sys)"
  have st: "step (TimerFire 0) ?s = Some ?s'"
    unfolding bob_detached_def by code_simp
  have inn: "''tB'' \<in> set (tokens (clients ?s))"
    unfolding bob_detached_def by code_simp
  have out: "''tB'' \<notin> set (tokens (clients ?s'))"
    unfolding bob_detached_def by code_simp
  from token_removed_only_by_timer_or_overwrite [OF st inn out]
  have "tm_token (timers ?s ! 0) = ''tB''" by auto
  with st inn out show ?thesis by blast
qed

text \<open>Once an eviction task is no longer sleeping (aborted by an attach, or already
  run), no continuation of the execution can run it.\<close>

theorem cancelled_timer_never_fires:
  assumes "run es s = Some s'" and "t < length (timers s)"
    and "\<not> is_sleeping (tm_state (timers s ! t))"
  shows "fire_timer t s' = None"
  using assms
proof (induction es arbitrary: s)
  case Nil
  then show ?case
    by (auto simp: fire_timer_def split: timer_state.splits)
next
  case (Cons e es)
  then obtain s1 where st: "step e s = Some s1" and r: "run es s1 = Some s'"
    by (auto split: option.splits)
  from step_keeps_inactive_timer [OF st Cons.prems(2,3)]
  have "t < length (timers s1)" and "\<not> is_sleeping (tm_state (timers s1 ! t))"
    using Cons.prems(3) by auto
  with r show ?case by (rule Cons.IH)
qed

text \<open>C11: The upgrade check and the attach are separate critical sections, so a
  reconnection can be accepted and still find no client: when an eviction task is due
  and its client is still registered, ws_handler accepts an upgrade with that token (the
  peer gets 101), the task runs before client_connected's attach, and the attach then
  finds nothing; the connection is open while no client holds the token.\<close>

theorem upgrade_accepted_then_evicted:
  assumes "t < length (timers s)" and "tm_state (timers s ! t) = Sleeping d" and "d \<le> now s"
    and "any_token (clients s) (tm_token (timers s ! t))"
  shows "ws_handler (tm_token (timers s ! t)) s \<and>
         (\<exists>s'. run [WsUpgrade (tm_token (timers s ! t)), TimerFire t, Attach (length (conns s))] s = Some s' \<and>
               c_phase (conns s' ! length (conns s)) = Open \<and>
               \<not> any_token (clients s') (tm_token (timers s ! t)))"
proof -
  let ?tok = "tm_token (timers s ! t)"
  let ?i = "length (conns s)"
  have acc: "ws_handler ?tok s" using assms(4) by (simp add: ws_handler_def)
  define s1 where "s1 = ws_upgrade ?tok s"
  have s1: "timers s1 = timers s" "now s1 = now s" "length (conns s1) = Suc ?i"
    "c_phase (conns s1 ! ?i) = Upgrading" "c_token (conns s1 ! ?i) = ?tok"
    using acc by (simp_all add: s1_def ws_upgrade_def new_chan_def nth_append)
  define s2 where "s2 = timer_body ?tok (s1\<lparr>timers := (timers s1)[t := (timers s1 ! t)\<lparr>tm_state := Fired\<rparr>]\<rparr>)"
  have f: "fire_timer t s1 = Some s2"
    using assms(1-3) s1 by (simp add: fire_timer_def s2_def)
  have none: "find_by_token (clients s2) ?tok = None"
    by (simp add: s2_def timer_body_def find_by_token_retain)
  have s2: "conns s2 = conns s1" "\<not> any_token (clients s2) ?tok"
    using none by (simp_all add: s2_def timer_body_def any_token_find)
  have "clients (cc_attach ?tok ch s2) = clients s2" for ch
    using none by (simp add: cc_attach_def)
  then show ?thesis
    using acc f s1 s2 by (simp add: s1_def [symmetric] set_phase_def)
qed

theorem upgrade_accepted_then_evicted_witness:
  "ws_handler ''tB'' (the (run (bob_detached @ replicate 10 Tick) init_sys)) \<and>
   (\<exists>s'. run [WsUpgrade ''tB'', TimerFire 0, Attach 1] (the (run (bob_detached @ replicate 10 Tick) init_sys)) = Some s' \<and>
         c_phase (conns s' ! 1) = Open \<and> \<not> any_token (clients s') ''tB'')"
proof -
  let ?s = "the (run (bob_detached @ replicate 10 Tick) init_sys)"
  have t: "0 < length (timers ?s)" and sl: "tm_state (timers ?s ! 0) = Sleeping 10" and d: "10 \<le> now ?s"
    and tk: "tm_token (timers ?s ! 0) = ''tB''" and c: "length (conns ?s) = 1"
    and a: "any_token (clients ?s) ''tB''"
    unfolding bob_detached_def by code_simp+
  show ?thesis
    using upgrade_accepted_then_evicted [OF t sl d] a tk c by simp
qed

text \<open>C10: A stale eviction task removes a client that has a live connection. Whenever a
  client has two connections, one whose peer has closed and one that is open (the
  client reconnected before the server noticed the drop), the detach section of the
  closed one starts an eviction task, and after grace_period ticks that task evicts the
  client although its other connection is still open.\<close>

theorem stale_timer_evicts_connected_client:
  assumes "i < length (conns s)" and "c_phase (conns s ! i) = Closed"
    and "j < length (conns s)" and "c_phase (conns s ! j) = Open"
    and "c_token (conns s ! j) = c_token (conns s ! i)"
    and "any_token (clients s) (c_token (conns s ! i))"
  shows "\<exists>s'. run (Detach i # replicate grace_period Tick @ [TimerFire (length (timers s))]) s = Some s' \<and>
              c_phase (conns s' ! j) = Open \<and> \<not> any_token (clients s') (c_token (conns s ! j))"
proof -
  let ?tok = "c_token (conns s ! i)" and ?n = "length (timers s)"
  obtain e where f: "find_by_token (clients s) ?tok = Some e"
    using assms(6) by (auto simp: any_token_find)
  define s1 where "s1 = (cc_detach ?tok s)\<lparr>conns := set_phase i Done (conns s)\<rparr>"
  have st1: "step (Detach i) s = Some s1" using assms(1,2) by (simp add: s1_def)
  have tm1: "timers s1 = timers s @ [\<lparr>tm_token = ?tok, tm_state = Sleeping (now s + grace_period)\<rparr>]"
    using cc_detach_found [OF f] by (simp add: s1_def)
  have ij: "i \<noteq> j" using assms(2,4) by auto
  have cj: "conns s1 ! j = conns s ! j" using ij by (simp add: s1_def set_phase_def)
  define s2 where "s2 = s1\<lparr>now := now s1 + grace_period\<rparr>"
  have ticks: "run (replicate grace_period Tick) s1 = Some s2" by (simp add: run_ticks s2_def)
  define s3 where "s3 = timer_body ?tok (s2\<lparr>timers := (timers s2)[?n := (timers s2 ! ?n)\<lparr>tm_state := Fired\<rparr>]\<rparr>)"
  have fire: "step (TimerFire ?n) s2 = Some s3"
    using tm1 by (simp add: fire_timer_def s2_def s3_def s1_def nth_append)
  have "\<not> any_token (clients s3) ?tok" and "conns s3 ! j = conns s ! j"
    using cj by (simp_all add: s3_def s2_def timer_body_def any_token_find find_by_token_retain)
  moreover have "run (Detach i # replicate grace_period Tick @ [TimerFire ?n]) s = Some s3"
    using st1 ticks fire by (simp add: run_append)
  ultimately show ?thesis using assms(4,5) by auto
qed

theorem stale_timer_evicts_connected_client_witness:
  "\<exists>s'. run (Detach 0 # replicate grace_period Tick @ [TimerFire 0]) (the (run bob_overlapping init_sys)) = Some s' \<and>
        c_phase (conns s' ! 1) = Open \<and> \<not> any_token (clients s') ''tB''"
proof -
  let ?s = "the (run bob_overlapping init_sys)"
  have facts: "0 < length (conns ?s)" "c_phase (conns ?s ! 0) = Closed" "1 < length (conns ?s)"
    "c_phase (conns ?s ! 1) = Open" "c_token (conns ?s ! 1) = c_token (conns ?s ! 0)"
    "any_token (clients ?s) (c_token (conns ?s ! 0))" "length (timers ?s) = 0" "c_token (conns ?s ! 1) = ''tB''"
    unfolding bob_overlapping_def by code_simp+
  show ?thesis
    using stale_timer_evicts_connected_client [OF facts(1-6)] facts(7,8) by simp
qed

text \<open>C12: During the grace period the router still answers 200 and the message is lost.
  In every reachable state where a recipient's stored sender half belongs to a
  connection that is no longer open (its peer closed; the detach section keeps the
  sender), a message to the recipient from a registered sender is accepted, and the
  connection's outbound task then takes it off the channel without sending a frame.\<close>

theorem grace_send_accepted_then_lost:
  assumes "reachable s" and "i < length (conns s)" and "c_phase (conns s ! i) \<noteq> Open"
    and "map_of (clients s) (to_lowercase to) = Some rc" and "tx rc = Some (c_chan (conns s ! i))"
    and "find_by_token (clients s) tok = Some (k, sc)"
  shows "fst (handle_send_message tok to b s) = Sent \<and>
         (\<exists>s'. run (SendMessage tok to b # replicate (Suc (length (chans s ! c_chan (conns s ! i)))) (Pump i)) s = Some s' \<and>
               c_frames (conns s' ! i) = c_frames (conns s ! i) \<and> chans s' ! c_chan (conns s ! i) = [])"
proof -
  have ch: "c_chan (conns s ! i) < length (chans s)"
    using sys_inv_D(2) [OF reachable_inv [OF assms(1)]] assms(2) by simp
  from send_then_drain [OF assms(1,2,4,5,6), of b] assms(3) ch show ?thesis by auto
qed

theorem grace_send_accepted_then_lost_witness:
  "fst (handle_send_message ''tA'' ''bob'' ''hi'' (the (run (alice_bob_connected @ [PeerClose 0, Detach 0]) init_sys))) = Sent \<and>
   (\<exists>s'. run (SendMessage ''tA'' ''bob'' ''hi'' # replicate 1 (Pump 0))
            (the (run (alice_bob_connected @ [PeerClose 0, Detach 0]) init_sys)) = Some s' \<and>
         c_frames (conns s' ! 0) = [] \<and> chans s' ! 0 = [])"
proof -
  let ?s = "the (run (alice_bob_connected @ [PeerClose 0, Detach 0]) init_sys)"
  let ?rc = "\<lparr>name = ''Bob'', token = ''tB'', disconnect_timer = Some 0, tx = Some 0\<rparr>"
  let ?sc = "\<lparr>name = ''Alice'', token = ''tA'', disconnect_timer = None, tx = None\<rparr>"
  have r: "run (alice_bob_connected @ [PeerClose 0, Detach 0]) init_sys = Some ?s"
    unfolding alice_bob_connected_def by code_simp
  have facts: "0 < length (conns ?s)" "c_phase (conns ?s ! 0) \<noteq> Open" "c_chan (conns ?s ! 0) = 0"
    "chans ?s ! 0 = []" "c_frames (conns ?s ! 0) = []"
    "map_of (clients ?s) (to_lowercase ''bob'') = Some ?rc"
    "find_by_token (clients ?s) ''tA'' = Some (''alice'', ?sc)"
    unfolding alice_bob_connected_def by code_simp+
  have "tx ?rc = Some (c_chan (conns ?s ! 0))" using facts(3) by simp
  from grace_send_accepted_then_lost [OF run_reachable [OF r reachable.init] facts(1,2,6) this facts(7), of "''hi''"]
  show ?thesis using facts(3-5) by simp
qed

text \<open>C17: Reconnecting within the grace period keeps the client. In every reachable
  state where a client is in its grace period (its stored eviction task is still
  sleeping), a new connection with its credential is accepted and attached: the status
  of the credential is unchanged (same name), the new connection is open, and the
  eviction task can never run in any continuation of the execution.\<close>

theorem reconnect_within_grace_keeps_client:
  assumes "reachable s" and "find_by_token (clients s) tok = Some (k, c)"
    and "disconnect_timer c = Some t" and "is_sleeping (tm_state (timers s ! t))"
  shows "\<exists>s'. run [WsUpgrade tok, Attach (length (conns s))] s = Some s' \<and>
              handle_status tok s' = handle_status tok s \<and> c_phase (conns s' ! length (conns s)) = Open \<and>
              (\<forall>es s''. run es s' = Some s'' \<longrightarrow> fire_timer t s'' = None)"
proof -
  let ?n = "length (conns s)"
  have si: "sys_inv s" using reachable_inv [OF assms(1)] .
  have p: "ptrs_ok s c" and tc: "token c = tok" using found_ptrs_ok [OF si assms(2)] by blast+
  have tl: "t < length (timers s)" using p assms(3) by (simp add: ptrs_ok_def)
  have acc: "ws_handler tok s" using assms(2) by (simp add: ws_handler_def any_token_find)
  define s1 where "s1 = ws_upgrade tok s"
  have s1: "clients s1 = clients s" "timers s1 = timers s" "length (conns s1) = Suc ?n"
    "c_phase (conns s1 ! ?n) = Upgrading" "c_token (conns s1 ! ?n) = tok"
    using acc by (simp_all add: s1_def ws_upgrade_def new_chan_def nth_append)
  let ?ch = "c_chan (conns s1 ! ?n)"
  let ?f = "\<lambda>c. c\<lparr>disconnect_timer := None, tx := Some ?ch\<rparr>"
  define s2 where "s2 = (cc_attach tok ?ch s1)\<lparr>conns := set_phase ?n Open (conns s1)\<rparr>"
  have run2: "run [WsUpgrade tok, Attach ?n] s = Some s2"
    using s1 by (simp add: s1_def [symmetric] s2_def)
  have f1: "find_by_token (clients s1) tok = Some (k, c)" using assms(2) s1(1) by simp
  have cl2: "clients s2 = update_by_token (clients s) tok ?f"
    and tm2: "timers s2 = abort_task t (timers s)"
    using cc_attach_found [OF f1] assms(3) s1 by (simp_all add: s2_def)
  have "handle_status tok s2 = handle_status tok s"
    by (simp add: handle_status_def cl2 find_by_token_update_by_token assms(2) client_json_def)
  moreover have "c_phase (conns s2 ! ?n) = Open" using s1 by (simp add: s2_def set_phase_def)
  moreover have "fire_timer t s'' = None" if "run es s2 = Some s''" for es s''
  proof (rule cancelled_timer_never_fires [OF that])
    show "t < length (timers s2)" using tl by (simp add: tm2)
    show "\<not> is_sleeping (tm_state (timers s2 ! t))"
      using tl assms(4) by (simp add: tm2 abort_task_nth)
  qed
  ultimately show ?thesis using run2 by blast
qed

theorem reconnect_within_grace_keeps_client_witness:
  "\<exists>s'. run [WsUpgrade ''tB'', Attach 1] (the (run (bob_detached @ replicate 5 Tick) init_sys)) = Some s' \<and>
        handle_status ''tB'' s' = Some ''Bob'' \<and> c_phase (conns s' ! 1) = Open \<and>
        fire_timer 0 (the (run (replicate 20 Tick) s')) = None"
proof -
  let ?s = "the (run (bob_detached @ replicate 5 Tick) init_sys)"
  let ?c = "\<lparr>name = ''Bob'', token = ''tB'', disconnect_timer = Some 0, tx = Some 0\<rparr>"
  have r: "run (bob_detached @ replicate 5 Tick) init_sys = Some ?s"
    unfolding bob_detached_def by code_simp
  have facts: "find_by_token (clients ?s) ''tB'' = Some (''bob'', ?c)"
    "is_sleeping (tm_state (timers ?s ! 0))" "length (conns ?s) = 1" "handle_status ''tB'' ?s = Some ''Bob''"
    unfolding bob_detached_def by code_simp+
  obtain s' where "run [WsUpgrade ''tB'', Attach 1] ?s = Some s'" "handle_status ''tB'' s' = Some ''Bob''"
    "c_phase (conns s' ! 1) = Open" "\<forall>es s''. run es s' = Some s'' \<longrightarrow> fire_timer 0 s'' = None"
    using reconnect_within_grace_keeps_client [OF run_reachable [OF r reachable.init] facts(1) _ facts(2)] facts(3,4)
    by auto
  moreover have "run (replicate 20 Tick) s' = Some (the (run (replicate 20 Tick) s'))"
    by (simp add: run_ticks)
  ultimately show ?thesis by blast
qed

end
